theory Spec2Isabelle
  imports Main "HOL-Library.Word" "HOL-Library.Multiset" "HOL-Library.AList"
begin

unbundle bit_operations_syntax

section \<open>Python values shared by the modules\<close>

text \<open>
  Exceptions of the Python run time that the modelled functions can raise. A call
  that raises returns \<open>Inl\<close> of the exception; nothing is written after it.
  \<open>CorruptVaultError\<close> is the error kind named by the specification; no class of
  that name is declared in the sources.
\<close>

datatype error =
    AttributeError
  | ValueError
  | KeyError
  | IndexError
  | TypeError
  | JSONDecodeError
  | XMLSyntaxError
  | OSError
  | CorruptVaultError
  | Unmodelled

text \<open>Characters are code points below 256; \<open>str.isspace\<close>, \<open>str.isdigit\<close>,
  \<open>str.isalnum\<close> restricted to the ASCII letters and digits the patterns of the
  sources name, and \<open>str.strip()\<close>.\<close>

definition isspace :: "char \<Rightarrow> bool" where
  "isspace c = (let n = (of_char c :: nat) in
     (9 \<le> n \<and> n \<le> 13) \<or> (28 \<le> n \<and> n \<le> 32) \<or> n = 133 \<or> n = 160)"

definition isdigit :: "char \<Rightarrow> bool" where
  "isdigit c = (let n = (of_char c :: nat) in 48 \<le> n \<and> n \<le> 57)"

definition isalnum_ascii :: "char \<Rightarrow> bool" where
  "isalnum_ascii c = (let n = (of_char c :: nat) in
     (48 \<le> n \<and> n \<le> 57) \<or> (65 \<le> n \<and> n \<le> 90) \<or> (97 \<le> n \<and> n \<le> 122))"

definition strip :: "string \<Rightarrow> string" where
  "strip s = rev (dropWhile isspace (rev (dropWhile isspace s)))"

text \<open>
  Values that \<open>json.loads\<close> returns and \<open>json.dumps\<close> accepts. An object is a
  Python \<open>dict\<close>: an association list in insertion order with distinct keys. A float
  is kept as mantissa and binary exponent; it is only ever passed through.
\<close>

datatype json =
    JNull
  | JBool bool
  | JInt int
  | JFloat int int
  | JString string
  | JArray "json list"
  | JObject "(string \<times> json) list"

text \<open>
  The lxml document model. \<open>elem.tag\<close> of an element is a string, from which
  \<open>etree.QName\<close> reads the namespace and the local name; for a comment, a
  processing instruction or an entity it is not a string (\<open>NonStr\<close>). An element
  has its text, its attributes in document order, its children and the text behind its
  end tag. An \<open>ElementTree\<close> wraps its root element.
\<close>

datatype tag = Tag (namespace: "string option") (localname: string) | NonStr

datatype element =
  Element (tag: tag) (elem_text: "string option") (attrib: "(string \<times> string) list")
          (children: "element list") (tail: "string option")

section \<open>vault.py\<close>

subsection \<open>uuid.uuid4().hex\<close>

text \<open>
  \<open>uuid.uuid4()\<close> reads 16 bytes from the operating system and fixes the variant and
  version bits; \<open>.hex\<close> prints the 128-bit number as 32 lower-case hexadecimal digits.
  The 16 random bytes are an argument of the model (\<open>rnd\<close>).
\<close>

definition uuid4 :: "128 word \<Rightarrow> 128 word" where
  "uuid4 rnd =
     (((rnd AND NOT (push_bit 48 0xc000)) OR push_bit 48 0x8000)
        AND NOT (push_bit 64 0xf000)) OR push_bit 76 4"

definition hexdigit :: "nat \<Rightarrow> char" where
  "hexdigit n = ''0123456789abcdef'' ! (n mod 16)"

definition hex :: "128 word \<Rightarrow> string" where
  "hex w = map (\<lambda>i. hexdigit (unat (drop_bit (4 * (31 - i)) w AND 15))) [0..<32]"

subsection \<open>str.format with the keyword argument uuid\<close>

text \<open>
  \<open>format_str.format(uuid=uid)\<close>: literal text is copied, \<open>{{\<close> and \<open>}}\<close> are
  the escaped braces, \<open>{uuid}\<close> is replaced by \<open>uid\<close>. A lone brace is a ValueError,
  a positional field (\<open>{}\<close>, \<open>{0}\<close>) an IndexError since no positional argument is
  passed, another name a KeyError. Fields with a conversion, a format specification or
  an attribute or index access (\<open>!\<close>, \<open>:\<close>, \<open>.\<close>, \<open>[\<close>) are not modelled and are
  reported as \<open>Unmodelled\<close>.
\<close>

function format_uuid :: "string \<Rightarrow> string \<Rightarrow> error + string" where
  "format_uuid [] uid = Inr []"
| "format_uuid (c # cs) uid =
     (if c = CHR ''{'' then
        (if cs \<noteq> [] \<and> hd cs = CHR ''{'' then
           (case format_uuid (tl cs) uid of Inl e \<Rightarrow> Inl e | Inr s \<Rightarrow> Inr (CHR ''{'' # s))
         else
           (let name = takeWhile (\<lambda>x. x \<noteq> CHR ''}'') cs;
                rest = dropWhile (\<lambda>x. x \<noteq> CHR ''}'') cs
            in if rest = [] then Inl ValueError
               else if list_ex (\<lambda>x. x \<in> set ''!:.[{'') name then Inl Unmodelled
               else if name = ''uuid'' then
                 (case format_uuid (tl rest) uid of Inl e \<Rightarrow> Inl e | Inr s \<Rightarrow> Inr (uid @ s))
               else if list_all isdigit name then Inl IndexError
               else Inl KeyError))
      else if c = CHR ''}'' then
        (if cs \<noteq> [] \<and> hd cs = CHR ''}'' then
           (case format_uuid (tl cs) uid of Inl e \<Rightarrow> Inl e | Inr s \<Rightarrow> Inr (CHR ''}'' # s))
         else Inl ValueError)
      else
        (case format_uuid cs uid of Inl e \<Rightarrow> Inl e | Inr s \<Rightarrow> Inr (c # s)))"
  by pat_completeness auto
termination
proof (relation "measure (\<lambda>(s, uid). length s)")
  show "wf (measure (\<lambda>(s, uid). length s))" by simp
next
  fix c :: char and cs uid :: string
  assume "cs \<noteq> [] \<and> hd cs = CHR ''{''"
  then show "((tl cs, uid), (c # cs, uid)) \<in> measure (\<lambda>(s, uid). length s)"
    by simp
next
  fix c :: char and cs uid name rest :: string
  assume "rest = dropWhile (\<lambda>x. x \<noteq> CHR ''}'') cs"
  then have "length rest \<le> length cs"
    by (simp add: length_dropWhile_le)
  then have "length (tl rest) \<le> length cs"
    by simp
  then show "((tl rest, uid), (c # cs, uid)) \<in> measure (\<lambda>(s, uid). length s)"
    by simp
next
  fix c :: char and cs uid :: string
  assume "cs \<noteq> [] \<and> hd cs = CHR ''}''"
  then show "((tl cs, uid), (c # cs, uid)) \<in> measure (\<lambda>(s, uid). length s)"
    by simp
next
  fix c :: char and cs uid :: string
  show "((cs, uid), (c # cs, uid)) \<in> measure (\<lambda>(s, uid). length s)"
    by simp
qed

subsection \<open>VaultEntry and Vault\<close>

record VaultEntry =
  masked_value :: string
  original_value :: string
  created_at :: string

text \<open>
  \<open>Vault.entries\<close> is a \<open>dict\<close>: an association list in insertion order;
  \<open>d[k] = e\<close> is \<open>AList.update k e d\<close> (an existing key keeps its place and
  gets the new value, a new key is appended) and \<open>d.get(k)\<close> is \<open>map_of d k\<close>.
  A path is the list of its components.
\<close>

type_synonym pathname = "string list"

record Vault =
  path :: pathname
  entries :: "(string \<times> VaultEntry) list"

definition Vault_init :: "pathname \<Rightarrow> Vault" where
  "Vault_init p = \<lparr>path = p, entries = []\<rparr>"

text \<open>
  \<open>Vault.store(original, format_str)\<close>. \<open>rnd\<close> is what the operating system
  returns to \<open>uuid4\<close> in this call and \<open>now\<close> the time stamp of the clock; the
  entry is assigned under the generated key without looking the key up first.
\<close>

definition store :: "128 word \<Rightarrow> string \<Rightarrow> Vault \<Rightarrow> string \<Rightarrow> string \<Rightarrow> error + (string \<times> Vault)" where
  "store rnd now v original format_str =
     (let uid = take 12 (hex (uuid4 rnd)) in
      case format_uuid format_str uid of
        Inl e \<Rightarrow> Inl e
      | Inr masked \<Rightarrow>
          Inr (masked,
               v\<lparr>entries := AList.update masked
                    \<lparr>masked_value = masked, original_value = original, created_at = now\<rparr>
                    (entries v)\<rparr>))"

definition default_format :: string where
  "default_format = ''VAL_{uuid}''"

definition restore :: "Vault \<Rightarrow> string \<Rightarrow> string option" where
  "restore v masked =
     (case map_of (entries v) masked of None \<Rightarrow> None | Some entry \<Rightarrow> Some (original_value entry))"

subsection \<open>Persistence\<close>

text \<open>
  The file system maps a path to a file. A file is represented by what the parsers of
  the sources make of its text: a JSON document (\<open>json.loads\<close> returns the value), an
  XML document (\<open>etree.parse\<close> returns the tree) or any other text, which both
  parsers reject. Directories, permissions and encodings are not modelled.
\<close>

datatype stored_file = JsonFile json | XmlFile element | OtherFile string

type_synonym filesystem = "pathname \<rightharpoonup> stored_file"

definition asdict :: "VaultEntry \<Rightarrow> json" where
  "asdict e = JObject [(''masked_value'', JString (masked_value e)),
                       (''original_value'', JString (original_value e)),
                       (''created_at'', JString (created_at e))]"

definition save :: "filesystem \<Rightarrow> Vault \<Rightarrow> filesystem \<times> pathname" where
  "save fs v =
     (let data = JObject (map (\<lambda>(key, entry). (key, asdict entry)) (entries v))
      in (fs(path v \<mapsto> JsonFile data), path v))"

text \<open>
  \<open>VaultEntry(**vals)\<close>: \<open>vals\<close> has to be a mapping with exactly the three field
  names as keys, else a TypeError. The dataclass does not check the values; an entry
  with a field that is not a string is outside the record type and reported as
  \<open>Unmodelled\<close>.
\<close>

definition VaultEntry_from :: "json \<Rightarrow> error + VaultEntry" where
  "VaultEntry_from vals =
     (case vals of
        JObject kvs \<Rightarrow>
          if set (map fst kvs) \<noteq> {''masked_value'', ''original_value'', ''created_at''}
          then Inl TypeError
          else (case (map_of kvs ''masked_value'', map_of kvs ''original_value'',
                      map_of kvs ''created_at'') of
                  (Some (JString m), Some (JString orig), Some (JString c)) \<Rightarrow>
                     Inr \<lparr>masked_value = m, original_value = orig, created_at = c\<rparr>
                | _ \<Rightarrow> Inl Unmodelled)
      | _ \<Rightarrow> Inl TypeError)"

fun load_entries :: "(string \<times> json) list \<Rightarrow> error + (string \<times> VaultEntry) list" where
  "load_entries [] = Inr []"
| "load_entries ((key, vals) # kvs) =
     (case VaultEntry_from vals of
        Inl e \<Rightarrow> Inl e
      | Inr entry \<Rightarrow>
          (case load_entries kvs of Inl e \<Rightarrow> Inl e | Inr es \<Rightarrow> Inr ((key, entry) # es)))"

definition load :: "filesystem \<Rightarrow> Vault \<Rightarrow> error + Vault" where
  "load fs v =
     (case fs (path v) of
        None \<Rightarrow> Inr v
      | Some (JsonFile raw) \<Rightarrow>
          (case raw of
             JObject kvs \<Rightarrow>
               (case load_entries kvs of Inl e \<Rightarrow> Inl e | Inr es \<Rightarrow> Inr (v\<lparr>entries := es\<rparr>))
           | _ \<Rightarrow> Inl AttributeError)
      | Some _ \<Rightarrow> Inl JSONDecodeError)"

subsection \<open>Rehydration\<close>

definition rehydrate_value :: "Vault \<Rightarrow> string \<Rightarrow> string" where
  "rehydrate_value v val = (case restore v val of Some original \<Rightarrow> original | None \<Rightarrow> val)"

fun rehydrate_dict :: "Vault \<Rightarrow> json \<Rightarrow> json" where
  "rehydrate_dict v (JObject kvs) = JObject (map (\<lambda>kx. (fst kx, rehydrate_dict v (snd kx))) kvs)"
| "rehydrate_dict v (JArray xs) = JArray (map (rehydrate_dict v) xs)"
| "rehydrate_dict v (JString s) = JString (rehydrate_value v s)"
| "rehydrate_dict v data = data"

text \<open>
  \<open>re.sub(r"VAL_[a-zA-Z0-9]+", replace_match, xml_content)\<close>: the text is scanned from
  the left; where \<open>VAL_\<close> is followed by at least one ASCII letter or digit the longest
  such run is the match, which is replaced by the stored original when the vault knows
  it and copied otherwise; scanning goes on behind the match. The replacement is not
  scanned again.
\<close>

function rehydrate_xml :: "Vault \<Rightarrow> string \<Rightarrow> string" where
  "rehydrate_xml v [] = []"
| "rehydrate_xml v (c # cs) =
     (if take 4 (c # cs) = ''VAL_'' \<and> takeWhile isalnum_ascii (drop 3 cs) \<noteq> [] then
        (let masked = ''VAL_'' @ takeWhile isalnum_ascii (drop 3 cs);
             rest = dropWhile isalnum_ascii (drop 3 cs)
         in (case restore v masked of Some original \<Rightarrow> original | None \<Rightarrow> masked)
            @ rehydrate_xml v rest)
      else c # rehydrate_xml v cs)"
  by pat_completeness auto
termination
proof (relation "measure (\<lambda>(v, s). length s)")
  show "wf (measure (\<lambda>(v, s). length s))" by simp
next
  fix v :: Vault and c :: char and cs rest :: string
  assume "rest = dropWhile isalnum_ascii (drop 3 cs)"
  then have "length rest \<le> length (drop 3 cs)"
    using length_dropWhile_le [of isalnum_ascii "drop 3 cs"] by simp
  then show "((v, rest), (v, c # cs)) \<in> measure (\<lambda>(v, s). length s)"
    by simp
next
  fix v :: Vault and c :: char and cs :: string
  show "((v, cs), (v, c # cs)) \<in> measure (\<lambda>(v, s). length s)"
    by simp
qed

section \<open>config.py\<close>

text \<open>
  \<open>value_pattern\<close> is a regular expression; the model holds what
  \<open>re.compile(value_pattern).fullmatch\<close> decides. The default is
  \<open>-?\d+\.?\d*\<close>: an optional minus sign, digits, an optional point, digits.
\<close>

definition numeric_fullmatch :: "string \<Rightarrow> bool" where
  "numeric_fullmatch s =
     (let s1 = (if s \<noteq> [] \<and> hd s = CHR ''-'' then tl s else s);
          r1 = dropWhile isdigit s1;
          r2 = (if r1 \<noteq> [] \<and> hd r1 = CHR ''.'' then tl r1 else r1)
      in takeWhile isdigit s1 \<noteq> [] \<and> list_all isdigit r2)"

record MaskingConfig =
  value_pattern :: "string \<Rightarrow> bool"
  uuid_format :: string
  preserve_attributes :: "string list"

record ShufflingConfig =
  enabled :: bool
  seed :: "int option"
  target_tags :: "string list"

record PolicyEngineConfig =
  masking :: MaskingConfig
  shuffling :: ShufflingConfig
  vault_path :: pathname
  strict_mode :: bool

definition MaskingConfig_default :: MaskingConfig where
  "MaskingConfig_default =
     \<lparr>value_pattern = numeric_fullmatch, uuid_format = ''VAL_{uuid}'',
      preserve_attributes = [''id'', ''type'']\<rparr>"

definition ShufflingConfig_default :: ShufflingConfig where
  "ShufflingConfig_default =
     \<lparr>enabled = True, seed = None, target_tags = [''element'', ''node'', ''component'']\<rparr>"

definition PolicyEngineConfig_default :: PolicyEngineConfig where
  "PolicyEngineConfig_default =
     \<lparr>masking = MaskingConfig_default, shuffling = ShufflingConfig_default,
      vault_path = [''session_vault.json''], strict_mode = False\<rparr>"

section \<open>policy\_engine.py\<close>

text \<open>\<open>Rule.action\<close> is a string at run time (\<open>load_policy\<close> does not check it
  against the four literals), compared with \<open>==\<close>.\<close>

record Rule =
  tag_pattern :: string
  action :: string
  parameters :: "(string \<times> string) list option"

record Policy =
  version :: string
  global_masking :: bool
  rules :: "Rule list"
  policy_created_at :: "string option"

definition SENSITIVE_KEYWORDS :: "string list" where
  "SENSITIVE_KEYWORDS =
     [''pressure'', ''temperature'', ''velocity'', ''coord'', ''val'', ''force'', ''stress'']"

text \<open>\<open>kw in s\<close> on strings, and \<open>str.lower()\<close> on code points below 256.\<close>

fun contains :: "string \<Rightarrow> string \<Rightarrow> bool" where
  "contains kw [] = (kw = [])"
| "contains kw (c # cs) = (take (length kw) (c # cs) = kw \<or> contains kw cs)"

definition lower_char :: "char \<Rightarrow> char" where
  "lower_char c = (let n = (of_char c :: nat) in
     if (65 \<le> n \<and> n \<le> 90) \<or> (192 \<le> n \<and> n \<le> 222 \<and> n \<noteq> 215)
     then char_of (n + 32) else c)"

definition lower :: "string \<Rightarrow> string" where
  "lower s = map lower_char s"

text \<open>The inner loops of \<open>generate_policy\<close>: \<open>child_tags\<close> counts the children by
  local name in the order of first occurrence; children whose tag is not a string or
  whose local name is empty are not counted.\<close>

fun count_child_tags :: "element list \<Rightarrow> (string \<times> nat) list \<Rightarrow> (string \<times> nat) list" where
  "count_child_tags [] child_tags = child_tags"
| "count_child_tags (child # cs) child_tags =
     (case tag child of
        NonStr \<Rightarrow> count_child_tags cs child_tags
      | Tag ns ctag \<Rightarrow>
          if ctag \<noteq> [] then
            count_child_tags cs
              (AList.update ctag ((case map_of child_tags ctag of None \<Rightarrow> 0 | Some n \<Rightarrow> n) + 1)
                 child_tags)
          else count_child_tags cs child_tags)"

fun emit_shuffle_rules ::
  "string \<Rightarrow> (string \<times> nat) list \<Rightarrow> string set \<times> Rule list \<Rightarrow> string set \<times> Rule list" where
  "emit_shuffle_rules tg [] st = st"
| "emit_shuffle_rules tg ((ctag, cnt) # items) (seen_tags, rs) =
     (let shuffle_key = tg @ ''/'' @ ctag in
      if cnt \<ge> 2 \<and> shuffle_key \<notin> seen_tags then
        emit_shuffle_rules tg items
          (insert shuffle_key seen_tags,
           rs @ [\<lparr>tag_pattern = tg, action = ''shuffle_siblings'',
                  parameters = Some [(''child_tag'', ctag)]\<rparr>])
      else emit_shuffle_rules tg items (seen_tags, rs))"

text \<open>The body of the loop \<open>for elem in root.iter()\<close> for one element. The
  conditions of the first two \<open>if\<close> statements are named; each of these two branches
  ends with \<open>continue\<close>.\<close>

definition sensitive_keyword_check :: "string \<Rightarrow> string set \<Rightarrow> bool" where
  "sensitive_keyword_check tg seen_tags =
     (list_ex (\<lambda>kw. contains kw (lower tg)) SENSITIVE_KEYWORDS \<and> tg \<notin> seen_tags)"

definition numeric_leaf_check :: "element \<Rightarrow> string \<Rightarrow> string set \<Rightarrow> bool" where
  "numeric_leaf_check elem tg seen_tags =
     (let text = strip (case elem_text elem of None \<Rightarrow> [] | Some t \<Rightarrow> t) in
      text \<noteq> [] \<and> numeric_fullmatch text \<and> tg \<notin> seen_tags)"

definition detect_elem :: "element \<Rightarrow> string set \<times> Rule list \<Rightarrow> string set \<times> Rule list" where
  "detect_elem elem st =
     (case tag elem of
        NonStr \<Rightarrow> st
      | Tag ns tg \<Rightarrow>
          (let seen_tags = fst st; rs = snd st in
           if sensitive_keyword_check tg seen_tags then
             (insert tg seen_tags,
              rs @ [\<lparr>tag_pattern = tg, action = ''mask_value'', parameters = None\<rparr>])
           else if numeric_leaf_check elem tg seen_tags then
             (insert tg seen_tags,
              rs @ [\<lparr>tag_pattern = tg, action = ''mask_value'', parameters = None\<rparr>])
           else
             emit_shuffle_rules tg (count_child_tags (children elem) []) (seen_tags, rs)))"

text \<open>\<open>root.iter()\<close>: the element, then its descendants, in document order.\<close>

fun iter :: "element \<Rightarrow> element list" where
  "iter (Element tg tx ats cs tlx) = Element tg tx ats cs tlx # concat (map iter cs)"

definition parse :: "filesystem \<Rightarrow> pathname \<Rightarrow> error + element" where
  "parse fs p =
     (case fs p of
        None \<Rightarrow> Inl OSError
      | Some (XmlFile root) \<Rightarrow> Inr root
      | Some _ \<Rightarrow> Inl XMLSyntaxError)"

definition generate_policy :: "filesystem \<Rightarrow> string \<Rightarrow> pathname \<Rightarrow> error + Policy" where
  "generate_policy fs now xml_path =
     (case parse fs xml_path of
        Inl e \<Rightarrow> Inl e
      | Inr root \<Rightarrow>
          Inr \<lparr>version = ''1.0'', global_masking = False,
               rules = snd (fold detect_elem (iter root) ({}, [])),
               policy_created_at = Some now\<rparr>)"

section \<open>gatekeeper.py\<close>

definition DEFAULT_TAG_MAP :: "(string \<times> string) list" where
  "DEFAULT_TAG_MAP =
     [(''pressure'', ''metric_alpha''), (''temperature'', ''thermal_beta''),
      (''velocity'', ''kinematic_gamma''), (''coordinates'', ''spatial_delta'')]"

text \<open>The argument \<open>tree\<close> of the three stages is an \<open>ElementTree\<close>, a bare
  element or a string, told apart at run time.\<close>

datatype treeish = PyElementTree element | PyElement element | PyStr string

subsection \<open>mask\_values\<close>

text \<open>
  The calls of \<open>vault.store\<close> of one run are numbered; \<open>env k\<close> is the pair of the
  16 random bytes and the time stamp that call \<open>k\<close> receives. The state threaded
  through the loop is the vault and the number of the next call.
\<close>

type_synonym entropy = "nat \<Rightarrow> 128 word \<times> string"

definition mask_text ::
  "MaskingConfig \<Rightarrow> entropy \<Rightarrow> tag \<Rightarrow> string option \<Rightarrow> Vault \<times> nat
     \<Rightarrow> error + (string option \<times> (Vault \<times> nat))" where
  "mask_text masking_config env tg tx st =
     (case tg of
        NonStr \<Rightarrow> Inr (tx, st)
      | Tag ns local \<Rightarrow>
          (let text = strip (case tx of None \<Rightarrow> [] | Some t \<Rightarrow> t) in
           if text \<noteq> [] \<and> value_pattern masking_config text then
             (case store (fst (env (snd st))) (snd (env (snd st))) (fst st) text default_format of
                Inl e \<Rightarrow> Inl e
              | Inr (placeholder, v') \<Rightarrow> Inr (Some placeholder, (v', Suc (snd st))))
           else Inr (tx, st)))"

fun mask_elem ::
  "MaskingConfig \<Rightarrow> entropy \<Rightarrow> element \<Rightarrow> Vault \<times> nat \<Rightarrow> error + (element \<times> (Vault \<times> nat))"
and mask_elems ::
  "MaskingConfig \<Rightarrow> entropy \<Rightarrow> element list \<Rightarrow> Vault \<times> nat
     \<Rightarrow> error + (element list \<times> (Vault \<times> nat))" where
  "mask_elem masking_config env (Element tg tx ats cs tlx) st =
     (case mask_text masking_config env tg tx st of
        Inl e \<Rightarrow> Inl e
      | Inr (tx', st1) \<Rightarrow>
          (case mask_elems masking_config env cs st1 of
             Inl e \<Rightarrow> Inl e
           | Inr (cs', st2) \<Rightarrow> Inr (Element tg tx' ats cs' tlx, st2)))"
| "mask_elems masking_config env [] st = Inr ([], st)"
| "mask_elems masking_config env (c # cs) st =
     (case mask_elem masking_config env c st of
        Inl e \<Rightarrow> Inl e
      | Inr (c', st1) \<Rightarrow>
          (case mask_elems masking_config env cs st1 of
             Inl e \<Rightarrow> Inl e
           | Inr (cs', st2) \<Rightarrow> Inr (c' # cs', st2)))"

definition mask_values ::
  "entropy \<Rightarrow> treeish \<Rightarrow> MaskingConfig \<Rightarrow> Vault \<times> nat \<Rightarrow> error + (treeish \<times> (Vault \<times> nat))" where
  "mask_values env tree masking_config st =
     (case tree of
        PyStr s \<Rightarrow> Inl AttributeError
      | PyElement root \<Rightarrow>
          (case mask_elem masking_config env root st of
             Inl e \<Rightarrow> Inl e | Inr (root', st') \<Rightarrow> Inr (PyElementTree root', st'))
      | PyElementTree root \<Rightarrow>
          (case mask_elem masking_config env root st of
             Inl e \<Rightarrow> Inl e | Inr (root', st') \<Rightarrow> Inr (PyElementTree root', st')))"

subsection \<open>shuffle\_siblings\<close>

text \<open>
  \<open>random.Random(seed)\<close>. The generator is the sequence of its raw outputs still to
  come. The Mersenne Twister is not modelled: \<open>mt_stream\<close> of the run time gives the
  sequence for a seed. Without a seed the generator is seeded from the operating
  system (\<open>os_seed\<close>). \<open>randbelow n\<close> returns a number below \<open>n\<close> and advances the
  generator (the reduction modulo \<open>n\<close> stands for the rejection sampling of
  \<open>Random._randbelow\<close>); \<open>shuffle\<close> is the loop of \<open>Random.shuffle\<close>:
  \<open>for i in reversed(range(1, len(x))): j = randbelow(i + 1); x[i], x[j] = x[j], x[i]\<close>.
  The parser and the serializer of lxml are functions of the run time as well, and so
  is \<open>resume_at\<close>, which says where the iterator of lxml goes on after the children
  of the element it has just returned were reordered (see \<open>shuffle_elem\<close>).
\<close>

type_synonym rng = "nat \<Rightarrow> nat"

record runtime =
  fromstring :: "string \<Rightarrow> error + element"
  tostring :: "element \<Rightarrow> string"
  mt_stream :: "int \<Rightarrow> rng"
  os_seed :: int
  resume_at :: "nat list \<Rightarrow> nat"

definition Random :: "runtime \<Rightarrow> int option \<Rightarrow> rng" where
  "Random rt sd = mt_stream rt (case sd of None \<Rightarrow> os_seed rt | Some a \<Rightarrow> a)"

definition randbelow :: "rng \<Rightarrow> nat \<Rightarrow> nat \<times> rng" where
  "randbelow g n = (g 0 mod n, \<lambda>i. g (Suc i))"

fun shuffle_from :: "nat \<Rightarrow> rng \<Rightarrow> 'a list \<Rightarrow> 'a list \<times> rng" where
  "shuffle_from 0 g x = (x, g)"
| "shuffle_from (Suc m) g x =
     (let i = Suc m; j = fst (randbelow g (i + 1))
      in shuffle_from m (snd (randbelow g (i + 1))) (x[i := x ! j, j := x ! i]))"

definition shuffle :: "rng \<Rightarrow> 'a list \<Rightarrow> 'a list \<times> rng" where
  "shuffle g x = shuffle_from (length x - 1) g x"

text \<open>
  Lines 95 to 100 for one element: the children are copied to a list, the list is
  shuffled, all children are removed and appended again in the new order. The children
  are numbered so that the place of the former first child is known afterwards.
\<close>

definition shuffle_children :: "rng \<Rightarrow> element list \<Rightarrow> (nat \<times> element) list \<times> rng" where
  "shuffle_children g cs = shuffle g (zip [0..<length cs] cs)"

text \<open>
  The loop \<open>for elem in root.iter()\<close> of \<open>shuffle_siblings\<close> changes the tree it
  walks, for which lxml documents no behaviour. The model takes from the run time the
  place among the reordered children at which the walk goes on: \<open>resume\<close> is given
  the former positions of the children in their new order and returns the number of
  children that are passed over, together with their descendants. The iterator of lxml
  has fixed the element it returns next before the loop body runs, so that the walk
  goes on at the former first child and from there in the new order
  (\<open>lxml_resume_at\<close>); a walk that visits all children in the new order returns 0.
\<close>

definition lxml_resume_at :: "nat list \<Rightarrow> nat" where
  "lxml_resume_at former = length (takeWhile (\<lambda>i. i \<noteq> 0) former)"

function shuffle_elem ::
  "(nat list \<Rightarrow> nat) \<Rightarrow> (string \<Rightarrow> bool) \<Rightarrow> element \<Rightarrow> rng \<Rightarrow> element \<times> rng"
and shuffle_elems ::
  "(nat list \<Rightarrow> nat) \<Rightarrow> (string \<Rightarrow> bool) \<Rightarrow> element list \<Rightarrow> rng \<Rightarrow> element list \<times> rng" where
  "shuffle_elem resume should_shuffle (Element tg tx ats cs tlx) g =
     (if (case tg of NonStr \<Rightarrow> False | Tag ns local \<Rightarrow> should_shuffle local) \<and> length cs \<ge> 2
      then
        (let numbered = fst (shuffle_children g cs);
             k = resume (map fst numbered);
             walked = shuffle_elems resume should_shuffle (map snd (drop k numbered))
                        (snd (shuffle_children g cs))
         in (Element tg tx ats (map snd (take k numbered) @ fst walked) tlx, snd walked))
      else
        (let walked = shuffle_elems resume should_shuffle cs g
         in (Element tg tx ats (fst walked) tlx, snd walked)))"
| "shuffle_elems resume should_shuffle [] g = ([], g)"
| "shuffle_elems resume should_shuffle (c # cs) g =
     (let first = shuffle_elem resume should_shuffle c g;
          others = shuffle_elems resume should_shuffle cs (snd first)
      in (fst first # fst others, snd others))"
  by pat_completeness auto
termination
proof (relation "measure (\<lambda>a. case a of Inl (r, f, e, g) \<Rightarrow> size e
                                      | Inr (r, f, es, g) \<Rightarrow> size_list size es)")
  show "wf (measure (\<lambda>a. case a of Inl (r, f, e, g) \<Rightarrow> size e
                                   | Inr (r, f, es :: element list, g) \<Rightarrow> size_list size es))"
    by simp
next
  fix resume :: "nat list \<Rightarrow> nat" and should_shuffle :: "string \<Rightarrow> bool" and tg tx ats
    and cs :: "element list" and tlx and g :: rng and numbered k
  assume n: "numbered = fst (shuffle_children g cs)"
  have perm: "mset (fst (shuffle_from m h (x :: (nat \<times> element) list))) = mset x"
    if "m < length x" for m h x
    using that
  proof (induction m arbitrary: h x)
    case 0
    then show ?case by simp
  next
    case (Suc m)
    have "h 0 mod (Suc m + 1) < Suc m + 1"
      by simp
    with Suc.prems have j: "h 0 mod (Suc m + 1) < length x"
      by linarith
    have "mset (x[Suc m := x ! (h 0 mod (Suc m + 1)), h 0 mod (Suc m + 1) := x ! Suc m]) = mset x"
      using Suc.prems j by (simp add: mset_swap)
    moreover have "m < length (x[Suc m := x ! (h 0 mod (Suc m + 1)), h 0 mod (Suc m + 1) := x ! Suc m])"
      using Suc.prems by simp
    ultimately show ?case
      using Suc.IH by (simp add: randbelow_def Let_def)
  qed
  have "mset numbered = mset (zip [0..<length cs] cs)"
  proof (cases "cs = []")
    case True
    then show ?thesis by (simp add: n shuffle_children_def shuffle_def)
  next
    case False
    then show ?thesis by (simp add: n shuffle_children_def shuffle_def perm)
  qed
  moreover have "image_mset snd (mset (zip [0..<length cs] cs)) = mset cs"
    by (simp flip: mset_map)
  ultimately have h: "mset (map snd numbered) = mset cs"
    by simp
  have "sum_list (map size (map snd numbered)) = sum_mset (image_mset size (mset (map snd numbered)))"
    by (metis mset_map sum_mset_sum_list)
  also have "\<dots> = sum_list (map size cs)"
    unfolding h by (metis mset_map sum_mset_sum_list)
  finally have total: "size_list size (map snd numbered) = size_list size cs"
    using mset_eq_length [OF h] by (simp add: size_list_conv_sum_list)
  have "size_list size (map snd (take k numbered) @ map snd (drop k numbered))
          = size_list size (map snd numbered)"
    by (simp flip: map_append)
  then have "size_list size (map snd (drop k numbered)) \<le> size_list size (map snd numbered)"
    by (simp add: size_list_append)
  with total show "(Inr (resume, should_shuffle, map snd (drop k numbered), snd (shuffle_children g cs)),
        Inl (resume, should_shuffle, Element tg tx ats cs tlx, g))
       \<in> measure (\<lambda>a. case a of Inl (r, f, e, g) \<Rightarrow> size e
                               | Inr (r, f, es, g) \<Rightarrow> size_list size es)"
    by simp
qed auto

definition shuffle_parents_of :: "Rule list option \<Rightarrow> string set option" where
  "shuffle_parents_of rs =
     (case rs of
        None \<Rightarrow> None
      | Some l \<Rightarrow>
          if l \<noteq> [] then Some (set (map tag_pattern (filter (\<lambda>r. action r = ''shuffle_siblings'') l)))
          else None)"

definition should_shuffle_tag :: "ShufflingConfig \<Rightarrow> Rule list option \<Rightarrow> string \<Rightarrow> bool" where
  "should_shuffle_tag shuffling_config rs tg =
     (case shuffle_parents_of rs of
        Some shuffle_parents \<Rightarrow> tg \<in> shuffle_parents
      | None \<Rightarrow> tg \<in> set (target_tags shuffling_config))"

definition shuffle_root :: "runtime \<Rightarrow> element \<Rightarrow> ShufflingConfig \<Rightarrow> Rule list option \<Rightarrow> string" where
  "shuffle_root rt root shuffling_config rs =
     (if \<not> enabled shuffling_config then tostring rt root
      else tostring rt
             (fst (shuffle_elem (resume_at rt) (should_shuffle_tag shuffling_config rs) root
                     (Random rt (seed shuffling_config)))))"

definition shuffle_siblings ::
  "runtime \<Rightarrow> treeish \<Rightarrow> ShufflingConfig \<Rightarrow> Rule list option \<Rightarrow> error + string" where
  "shuffle_siblings rt tree shuffling_config rs =
     (case tree of
        PyStr s \<Rightarrow>
          (case fromstring rt s of
             Inl e \<Rightarrow> Inl e
           | Inr root \<Rightarrow> Inr (shuffle_root rt root shuffling_config rs))
      | PyElement root \<Rightarrow> Inr (shuffle_root rt root shuffling_config rs)
      | PyElementTree root \<Rightarrow> Inr (shuffle_root rt root shuffling_config rs))"

subsection \<open>\_apply\_tag\_shadowing\<close>

text \<open>The values of the tag map are taken to be valid local names, so that the
  assignment to \<open>elem.tag\<close> does not raise.\<close>

fun shadow_elem :: "(string \<times> string) list \<Rightarrow> element \<Rightarrow> element" where
  "shadow_elem tag_map (Element tg tx ats cs tlx) =
     Element
       (case tg of
          NonStr \<Rightarrow> NonStr
        | Tag ns local \<Rightarrow>
            (case map_of tag_map local of
               None \<Rightarrow> Tag ns local
             | Some new \<Rightarrow>
                 (case ns of
                    None \<Rightarrow> Tag None new
                  | Some n \<Rightarrow> if n \<noteq> [] then Tag (Some n) new else Tag None new)))
       tx ats (map (shadow_elem tag_map) cs) tlx"

definition apply_tag_shadowing :: "treeish \<Rightarrow> (string \<times> string) list \<Rightarrow> error + treeish" where
  "apply_tag_shadowing tree tag_map =
     (case tree of
        PyElementTree root \<Rightarrow> Inr (PyElementTree (shadow_elem tag_map root))
      | _ \<Rightarrow> Inl AttributeError)"

subsection \<open>apply\_gatekeeper\<close>

text \<open>\<open>Path.parent\<close>, \<open>Path.name\<close> and \<open>Path.stem\<close> on lists of components.\<close>

definition parent :: "pathname \<Rightarrow> pathname" where
  "parent p = butlast p"

definition name :: "pathname \<Rightarrow> string" where
  "name p = (if p = [] then [] else last p)"

definition stem :: "pathname \<Rightarrow> string" where
  "stem p =
     (let n = name p;
          i = length n - length (takeWhile (\<lambda>c. c \<noteq> CHR ''.'') (rev n)) - 1
      in if CHR ''.'' \<in> set n \<and> 0 < i \<and> i < length n - 1 then take i n else n)"

text \<open>
  \<open>tree.write\<close> needs an \<open>ElementTree\<close>; the file it writes is represented by the
  tree it serializes. The result is the pair of paths the function returns, together
  with the file system it leaves. \<open>config\<close> is the loaded configuration.
\<close>

definition write_tree :: "filesystem \<Rightarrow> treeish \<Rightarrow> pathname \<Rightarrow> error + filesystem" where
  "write_tree fs tree p =
     (case tree of
        PyElementTree root \<Rightarrow> Inr (fs(p \<mapsto> XmlFile root))
      | _ \<Rightarrow> Inl AttributeError)"

definition apply_gatekeeper ::
  "runtime \<Rightarrow> entropy \<Rightarrow> filesystem \<Rightarrow> pathname \<Rightarrow> Policy \<Rightarrow> PolicyEngineConfig
     \<Rightarrow> pathname option \<Rightarrow> (string \<times> string) list option
     \<Rightarrow> error + ((pathname \<times> pathname) \<times> filesystem)" where
  "apply_gatekeeper rt env fs xml_path policy config output_dir tag_map =
     (let out_dir = (case output_dir of
                       None \<Rightarrow> parent xml_path
                     | Some d \<Rightarrow> if d \<noteq> [] then d else parent xml_path)
      in
      case parse fs xml_path of
        Inl e \<Rightarrow> Inl e
      | Inr root \<Rightarrow>
      (let tree = PyElementTree root;
           vault = Vault_init (vault_path config);
           mask_rules = filter (\<lambda>r. action r = ''mask_value'') (rules policy)
       in
       case (if global_masking policy \<or> mask_rules \<noteq> []
             then mask_values env tree (masking config) (vault, 0)
             else Inr (tree, (vault, 0))) of
         Inl e \<Rightarrow> Inl e
       | Inr (tree1, (vault1, k)) \<Rightarrow>
       (let shuffle_rules = filter (\<lambda>r. action r = ''shuffle_siblings'') (rules policy)
        in
        case (if enabled (shuffling config) \<and> shuffle_rules \<noteq> []
              then (case shuffle_siblings rt tree1 (shuffling config) (Some shuffle_rules) of
                      Inl e \<Rightarrow> Inl e | Inr s \<Rightarrow> Inr (PyStr s))
              else Inr tree1) of
          Inl e \<Rightarrow> Inl e
        | Inr tree2 \<Rightarrow>
        (let effective_map = (case tag_map of None \<Rightarrow> DEFAULT_TAG_MAP | Some m \<Rightarrow> m)
         in
         case apply_tag_shadowing tree2 effective_map of
           Inl e \<Rightarrow> Inl e
         | Inr tree3 \<Rightarrow>
         (let sanitized_path = out_dir @ [stem xml_path @ ''_sanitized.xml'']
          in
          case write_tree fs tree3 sanitized_path of
            Inl e \<Rightarrow> Inl e
          | Inr fs1 \<Rightarrow>
              Inr ((sanitized_path, vault_path config), fst (save fs1 vault1)))))))"

section \<open>Notions used in the statements\<close>

text \<open>The placeholder that \<open>store\<close> builds from the random bytes \<open>rnd\<close> with the
  default template.\<close>

definition placeholder_of :: "128 word \<Rightarrow> string" where
  "placeholder_of rnd = ''VAL_'' @ take 12 (hex (uuid4 rnd))"

definition ishex :: "char \<Rightarrow> bool" where
  "ishex c = (c \<in> set ''0123456789abcdef'')"

text \<open>The element reached from \<open>e\<close> by a list of child positions, and the literal
  that the masking loop stores for an element: its trimmed text, if the tag is a string
  and the trimmed text is not empty and matches the pattern.\<close>

fun node_at :: "element \<Rightarrow> nat list \<Rightarrow> element option" where
  "node_at e [] = Some e"
| "node_at e (i # is) = (if i < length (children e) then node_at (children e ! i) is else None)"

definition masked_literal :: "MaskingConfig \<Rightarrow> element \<Rightarrow> string option" where
  "masked_literal masking_config e =
     (case tag e of
        NonStr \<Rightarrow> None
      | Tag ns local \<Rightarrow>
          (let text = strip (case elem_text e of None \<Rightarrow> [] | Some t \<Rightarrow> t) in
           if text \<noteq> [] \<and> value_pattern masking_config text then Some text else None))"

text \<open>
  The effect of the calls of \<open>store\<close> numbered from \<open>snd st\<close> up to, and not
  including, \<open>snd st'\<close>, on the vault: the path stays, the keys are the former keys
  and the placeholders of these calls, and a key that none of these calls generates
  keeps its entry.
\<close>

definition stores_between :: "entropy \<Rightarrow> Vault \<times> nat \<Rightarrow> Vault \<times> nat \<Rightarrow> bool" where
  "stores_between env st st' \<longleftrightarrow>
     snd st \<le> snd st'
     \<and> path (fst st') = path (fst st)
     \<and> dom (map_of (entries (fst st'))) =
         dom (map_of (entries (fst st)))
           \<union> {placeholder_of (fst (env j)) | j. snd st \<le> j \<and> j < snd st'}
     \<and> (\<forall>key. (\<forall>j. snd st \<le> j \<and> j < snd st' \<longrightarrow> key \<noteq> placeholder_of (fst (env j)))
            \<longrightarrow> map_of (entries (fst st')) key = map_of (entries (fst st)) key)"

text \<open>The number of elements of a tree for which the masking loop calls \<open>store\<close>.\<close>

definition masked_count :: "MaskingConfig \<Rightarrow> element \<Rightarrow> nat" where
  "masked_count masking_config e =
     length (filter (\<lambda>n. masked_literal masking_config n \<noteq> None) (iter e))"

text \<open>A tree with the order of siblings forgotten: two trees have the same image
  exactly if one is the other with the children of some elements reordered.\<close>

datatype utree =
  UNode tag "string option" "(string \<times> string) list" "utree multiset" "string option"

fun unordered :: "element \<Rightarrow> utree" where
  "unordered (Element tg tx ats cs tlx) = UNode tg tx ats (mset (map unordered cs)) tlx"

text \<open>The keys of the JSON object in the file at a path.\<close>

definition json_keys :: "filesystem \<Rightarrow> pathname \<Rightarrow> string set" where
  "json_keys fs p = (case fs p of Some (JsonFile (JObject kvs)) \<Rightarrow> set (map fst kvs) | _ \<Rightarrow> {})"

text \<open>How often a local name occurs among the children of an element.\<close>

definition child_count :: "element \<Rightarrow> string \<Rightarrow> nat" where
  "child_count e ctag = length (filter (\<lambda>c. \<exists>ns. tag c = Tag ns ctag) (children e))"

section \<open>Concrete inputs\<close>

text \<open>A run time for the examples: a serializer that writes tags, text and tail, a
  parser that accepts nothing, a generator whose outputs count up from the seed, and the
  iterator of lxml.\<close>

fun example_tostring :: "element \<Rightarrow> string" where
  "example_tostring (Element tg tx ats cs tlx) =
     (case tg of
        NonStr \<Rightarrow> ''<!---->''
      | Tag ns local \<Rightarrow>
          ''<'' @ local @ ''>'' @ (case tx of None \<Rightarrow> [] | Some t \<Rightarrow> t)
            @ concat (map example_tostring cs) @ ''</'' @ local @ ''>'')
     @ (case tlx of None \<Rightarrow> [] | Some t \<Rightarrow> t)"

definition example_runtime :: runtime where
  "example_runtime =
     \<lparr>fromstring = (\<lambda>s. Inl XMLSyntaxError), tostring = example_tostring,
      mt_stream = (\<lambda>a i. nat \<bar>a\<bar> + i), os_seed = 0, resume_at = lxml_resume_at\<rparr>"

text \<open>Entropy for the examples: call \<open>k\<close> of \<open>store\<close> receives the bytes of the
  number \<open>k\<close> shifted into the first six bytes, so that the identifiers differ; and an
  entropy that returns the same bytes to every call.\<close>

definition example_env :: entropy where
  "example_env k = (push_bit 80 (of_nat k), ''2024-01-01T00:00:00+00:00'')"

definition constant_env :: entropy where
  "constant_env k = (0, ''2024-01-01T00:00:00+00:00'')"

definition leaf :: "string \<Rightarrow> string \<Rightarrow> element" where
  "leaf tg tx = Element (Tag None tg) (Some tx) [] [] None"

definition sample_doc :: element where
  "sample_doc = Element (Tag None ''root'') None [] [leaf ''pressure'' ''123.45'', leaf ''pressure'' ''500.0''] None"

definition sample_fs :: filesystem where
  "sample_fs = [[''data'', ''sample.xml''] \<mapsto> XmlFile sample_doc]"

text \<open>The file system after a run on \<open>sample_fs\<close> with \<open>example_env\<close> and a
  policy that masks and does not shuffle.\<close>

definition sample_sanitized :: element where
  "sample_sanitized = Element (Tag None ''root'') None []
     [Element (Tag None ''metric_alpha'') (Some ''VAL_000000000000'') [] [] None,
      Element (Tag None ''metric_alpha'') (Some ''VAL_000000000001'') [] [] None] None"

definition sample_vault_entries :: "(string \<times> VaultEntry) list" where
  "sample_vault_entries =
     [(''VAL_000000000000'', \<lparr>masked_value = ''VAL_000000000000'', original_value = ''123.45'',
                              created_at = ''2024-01-01T00:00:00+00:00''\<rparr>),
      (''VAL_000000000001'', \<lparr>masked_value = ''VAL_000000000001'', original_value = ''500.0'',
                              created_at = ''2024-01-01T00:00:00+00:00''\<rparr>)]"

definition sample_fs_after :: filesystem where
  "sample_fs_after =
     sample_fs([''data'', ''sample_sanitized.xml''] \<mapsto> XmlFile sample_sanitized,
               [''session_vault.json''] \<mapsto>
                 JsonFile (JObject (map (\<lambda>(key, entry). (key, asdict entry)) sample_vault_entries)))"

text \<open>The sample file system with a vault file left by an earlier run.\<close>

definition stale_fs :: filesystem where
  "stale_fs =
     sample_fs([''session_vault.json''] \<mapsto>
       JsonFile (JObject [(''VAL_ffffffffffff'',
          asdict \<lparr>masked_value = ''VAL_ffffffffffff'', original_value = ''9.75'',
                  created_at = ''2023-12-31T00:00:00+00:00''\<rparr>)]))"

text \<open>The same after a run in which every call of \<open>store\<close> receives the same
  random bytes (\<open>constant_env\<close>).\<close>

definition collided_sanitized :: element where
  "collided_sanitized = Element (Tag None ''root'') None []
     [Element (Tag None ''metric_alpha'') (Some ''VAL_000000000000'') [] [] None,
      Element (Tag None ''metric_alpha'') (Some ''VAL_000000000000'') [] [] None] None"

definition collided_vault_entries :: "(string \<times> VaultEntry) list" where
  "collided_vault_entries =
     [(''VAL_000000000000'', \<lparr>masked_value = ''VAL_000000000000'', original_value = ''500.0'',
                              created_at = ''2024-01-01T00:00:00+00:00''\<rparr>)]"

definition collided_fs_after :: filesystem where
  "collided_fs_after =
     sample_fs([''data'', ''sample_sanitized.xml''] \<mapsto> XmlFile collided_sanitized,
               [''session_vault.json''] \<mapsto>
                 JsonFile (JObject (map (\<lambda>(key, entry). (key, asdict entry)) collided_vault_entries)))"

text \<open>A vault after \<open>store(''7'')\<close> and then \<open>store\<close> of the placeholder that the
  first call returned, and the vault of the run on the sample document.\<close>

definition nested_vault :: Vault where
  "nested_vault =
     \<lparr>path = [''session_vault.json''],
      entries =
        [(''VAL_000000000000'', \<lparr>masked_value = ''VAL_000000000000'', original_value = ''7'',
                                 created_at = ''2024-01-01T00:00:00+00:00''\<rparr>),
         (''VAL_000000000001'', \<lparr>masked_value = ''VAL_000000000001'',
                                 original_value = ''VAL_000000000000'',
                                 created_at = ''2024-01-01T00:00:01+00:00''\<rparr>)]\<rparr>"

definition sample_vault :: Vault where
  "sample_vault = \<lparr>path = [''session_vault.json''], entries = sample_vault_entries\<rparr>"

definition coords_doc :: element where
  "coords_doc = Element (Tag None ''coords'') None []
     [Element (Tag None ''p'') None [] [] None, Element (Tag None ''p'') None [] [] None] None"

definition grid_doc :: element where
  "grid_doc = Element (Tag None ''grid'') None []
     [Element (Tag None ''p'') None [] [] None, Element (Tag None ''p'') None [] [] None] None"

definition mask_policy :: Policy where
  "mask_policy =
     \<lparr>version = ''1.0'', global_masking = False,
      rules = [\<lparr>tag_pattern = ''pressure'', action = ''mask_value'', parameters = None\<rparr>],
      policy_created_at = None\<rparr>"

definition shuffle_policy :: Policy where
  "shuffle_policy =
     \<lparr>version = ''1.0'', global_masking = False,
      rules = [\<lparr>tag_pattern = ''pressure'', action = ''mask_value'', parameters = None\<rparr>,
               \<lparr>tag_pattern = ''root'', action = ''shuffle_siblings'',
                parameters = Some [(''child_tag'', ''pressure'')]\<rparr>],
      policy_created_at = None\<rparr>"

section \<open>Properties of the vault\<close>

lemma format_uuid_default: "format_uuid default_format uid = Inr (''VAL_'' @ uid)"
  by (simp add: default_format_def)

lemma length_hex: "length (hex w) = 32"
  by (simp add: hex_def)

lemma store_default:
  "store rnd now v original default_format =
     Inr (''VAL_'' @ take 12 (hex (uuid4 rnd)),
          v\<lparr>entries := AList.update (''VAL_'' @ take 12 (hex (uuid4 rnd)))
               \<lparr>masked_value = ''VAL_'' @ take 12 (hex (uuid4 rnd)),
                original_value = original, created_at = now\<rparr> (entries v)\<rparr>)"
  by (simp add: store_def format_uuid_default Let_def)

lemma uid_zero: "take 12 (hex (uuid4 0)) = ''000000000000''"
  by code_simp

lemma uid_one: "take 12 (hex (uuid4 (push_bit 80 1))) = ''000000000001''"
  by code_simp

text \<open>
  C4 (as stated, refuted). The operating system returns the same 16 bytes to two calls
  of \<open>store\<close>: the second call generates the key of the first entry and replaces that
  entry; no other identifier is drawn.
\<close>

theorem store_overwrites_counterexample:
  "store 0 ''t1'' (Vault_init [''vault.json'']) ''1.5'' default_format =
     Inr (''VAL_000000000000'',
          \<lparr>path = [''vault.json''],
           entries = [(''VAL_000000000000'',
             \<lparr>masked_value = ''VAL_000000000000'', original_value = ''1.5'', created_at = ''t1''\<rparr>)]\<rparr>)
   \<and> store 0 ''t2''
        \<lparr>path = [''vault.json''],
         entries = [(''VAL_000000000000'',
           \<lparr>masked_value = ''VAL_000000000000'', original_value = ''1.5'', created_at = ''t1''\<rparr>)]\<rparr>
        ''2.5'' default_format =
     Inr (''VAL_000000000000'',
          \<lparr>path = [''vault.json''],
           entries = [(''VAL_000000000000'',
             \<lparr>masked_value = ''VAL_000000000000'', original_value = ''2.5'', created_at = ''t2''\<rparr>)]\<rparr>)"
  by (simp add: store_default uid_zero Vault_init_def)

text \<open>
  C4 (amended). A call of \<open>store\<close> that returns the placeholder \<open>p\<close> leaves every
  entry under a key other than \<open>p\<close> as it was, keeps the path, and binds \<open>p\<close> to the
  new entry, whether or not \<open>p\<close> was a key before.
\<close>

theorem store_frame:
  assumes "store rnd now v original format_str = Inr (p, v')"
  shows "(\<forall>k. k \<noteq> p \<longrightarrow> map_of (entries v') k = map_of (entries v) k)
         \<and> map_of (entries v') p =
             Some \<lparr>masked_value = p, original_value = original, created_at = now\<rparr>
         \<and> path v' = path v"
  using assms by (auto simp: store_def Let_def update_conv' split: sum.splits)

theorem store_frame_witness:
  "store 0 ''t2''
        \<lparr>path = [''vault.json''],
         entries = [(''VAL_000000000001'',
           \<lparr>masked_value = ''VAL_000000000001'', original_value = ''1.5'', created_at = ''t1''\<rparr>)]\<rparr>
        ''2.5'' default_format
     = Inr (''VAL_000000000000'',
          \<lparr>path = [''vault.json''],
           entries = [(''VAL_000000000001'',
             \<lparr>masked_value = ''VAL_000000000001'', original_value = ''1.5'', created_at = ''t1''\<rparr>),
             (''VAL_000000000000'',
             \<lparr>masked_value = ''VAL_000000000000'', original_value = ''2.5'', created_at = ''t2''\<rparr>)]\<rparr>)
   \<and> map_of (entries \<lparr>path = [''vault.json''],
           entries = [(''VAL_000000000001'',
             \<lparr>masked_value = ''VAL_000000000001'', original_value = ''1.5'', created_at = ''t1''\<rparr>),
             (''VAL_000000000000'',
             \<lparr>masked_value = ''VAL_000000000000'', original_value = ''2.5'', created_at = ''t2''\<rparr>)]\<rparr>)
         ''VAL_000000000001''
       = Some \<lparr>masked_value = ''VAL_000000000001'', original_value = ''1.5'', created_at = ''t1''\<rparr>"
proof -
  let ?v = "\<lparr>path = [''vault.json''],
         entries = [(''VAL_000000000001'',
           \<lparr>masked_value = ''VAL_000000000001'', original_value = ''1.5'', created_at = ''t1''\<rparr>)]\<rparr>"
  let ?v' = "\<lparr>path = [''vault.json''],
           entries = [(''VAL_000000000001'',
             \<lparr>masked_value = ''VAL_000000000001'', original_value = ''1.5'', created_at = ''t1''\<rparr>),
             (''VAL_000000000000'',
             \<lparr>masked_value = ''VAL_000000000000'', original_value = ''2.5'', created_at = ''t2''\<rparr>)]\<rparr>"
  have run: "store 0 ''t2'' ?v ''2.5'' default_format = Inr (''VAL_000000000000'', ?v')"
    by (simp add: store_default uid_zero)
  have "map_of (entries ?v') ''VAL_000000000001'' = map_of (entries ?v) ''VAL_000000000001''"
    using store_frame [OF run] by simp
  with run show ?thesis by simp
qed


text \<open>
  C5 (as stated, refuted). The vault file exists and is not JSON: \<open>load\<close> raises the
  decoder's own \<open>JSONDecodeError\<close>, not a \<open>CorruptVaultError\<close>.
\<close>

theorem load_corrupt_counterexample:
  "load [[''vault.json''] \<mapsto> OtherFile ''{not json''] (Vault_init [''vault.json'']) = Inl JSONDecodeError
   \<and> load [[''vault.json''] \<mapsto> OtherFile ''{not json''] (Vault_init [''vault.json''])
       \<noteq> Inl CorruptVaultError"
  by (simp add: load_def Vault_init_def)

text \<open>
  C5 (amended). When no file exists at the path, \<open>load\<close> returns without an error and
  leaves the vault as it was. When the file exists and is not JSON, \<open>load\<close> fails with
  the \<open>JSONDecodeError\<close> of the decoder; it does not succeed and does not reset the
  entries. On no input does \<open>load\<close> raise a \<open>CorruptVaultError\<close>.
\<close>

theorem load_missing_or_unparsable:
  "(fs (path v) = None \<longrightarrow> load fs v = Inr v)
   \<and> (fs (path v) = Some (OtherFile t) \<longrightarrow> load fs v = Inl JSONDecodeError)
   \<and> (fs (path v) = Some (XmlFile x) \<longrightarrow> load fs v = Inl JSONDecodeError)
   \<and> load fs v \<noteq> Inl CorruptVaultError"
proof -
  have "VaultEntry_from vals \<noteq> Inl CorruptVaultError" for vals
    by (auto simp: VaultEntry_from_def split: json.splits option.splits if_splits)
  then have "load_entries kvs \<noteq> Inl CorruptVaultError" for kvs
    by (induction kvs rule: load_entries.induct) (auto split: sum.splits)
  then show ?thesis
    by (auto simp: load_def split: option.splits stored_file.splits json.splits sum.splits)
qed

theorem load_missing_or_unparsable_witness:
  "load Map.empty (Vault_init [''vault.json'']) = Inr (Vault_init [''vault.json''])
   \<and> load [[''vault.json''] \<mapsto> OtherFile ''{not json''] (Vault_init [''vault.json''])
       = Inl JSONDecodeError"
  using load_missing_or_unparsable [of Map.empty "Vault_init [''vault.json'']"]
    load_missing_or_unparsable [of "[[''vault.json''] \<mapsto> OtherFile ''{not json'']"
      "Vault_init [''vault.json'']" "''{not json''"]
  by (simp add: Vault_init_def)

section \<open>Properties of the rule detector\<close>

lemma count_child_tags_lookup:
  "ctag \<noteq> [] \<Longrightarrow>
   map_of (count_child_tags cs acc) ctag =
     (let n = length (filter (\<lambda>c. \<exists>ns. tag c = Tag ns ctag) cs) in
      if n = 0 then map_of acc ctag
      else Some ((case map_of acc ctag of None \<Rightarrow> 0 | Some m \<Rightarrow> m) + n))"
proof (induction cs arbitrary: acc)
  case Nil
  then show ?case by simp
next
  case (Cons c cs)
  show ?case
  proof (cases "tag c")
    case NonStr
    then show ?thesis using Cons by (simp add: Let_def)
  next
    case (Tag ns local)
    then show ?thesis using Cons by (auto simp: Let_def update_conv' split: option.splits)
  qed
qed

lemma emit_shuffle_rules_mono:
  "set (snd st) \<subseteq> set (snd (emit_shuffle_rules tg items st))
   \<and> fst st \<subseteq> fst (emit_shuffle_rules tg items st)"
proof (induction tg items st rule: emit_shuffle_rules.induct)
  case (1 tg st)
  then show ?case by simp
next
  case (2 tg ctag cnt items seen_tags rs)
  then show ?case by (auto simp: Let_def)
qed

lemma emit_shuffle_rules_emits:
  assumes "(ctag, cnt) \<in> set items" and "cnt \<ge> 2"
  shows "tg @ ''/'' @ ctag \<in> fst (emit_shuffle_rules tg items (seen_tags, rs))
         \<and> (tg @ ''/'' @ ctag \<notin> seen_tags \<longrightarrow>
              \<lparr>tag_pattern = tg, action = ''shuffle_siblings'', parameters = Some [(''child_tag'', ctag)]\<rparr>
                \<in> set (snd (emit_shuffle_rules tg items (seen_tags, rs))))"
  using assms
proof (induction tg items "(seen_tags, rs)" arbitrary: seen_tags rs rule: emit_shuffle_rules.induct)
  case (1 tg)
  then show ?case by simp
next
  case (2 tg c n items seen_tags rs)
  let ?key = "tg @ ''/'' @ c"
  let ?rule = "\<lparr>tag_pattern = tg, action = ''shuffle_siblings'', parameters = Some [(''child_tag'', c)]\<rparr>"
  show ?case
  proof (cases "(ctag, cnt) = (c, n)")
    case True
    show ?thesis
    proof (cases "?key \<in> seen_tags")
      case True
      with \<open>(ctag, cnt) = (c, n)\<close> show ?thesis
        using emit_shuffle_rules_mono [of "(seen_tags, rs)" tg items] by (auto simp: Let_def)
    next
      case False
      with \<open>(ctag, cnt) = (c, n)\<close> "2.prems" show ?thesis
        using emit_shuffle_rules_mono [of "(insert ?key seen_tags, rs @ [?rule])" tg items]
        by (auto simp: Let_def)
    qed
  next
    case False
    then have mem: "(ctag, cnt) \<in> set items" using "2.prems" by auto
    show ?thesis
    proof (cases "n \<ge> 2 \<and> ?key \<notin> seen_tags")
      case True
      have neq: "?key \<noteq> tg @ ''/'' @ ctag \<or> c = ctag" by auto
      from True "2.hyps"(1) [OF refl True mem "2.prems"(2)] 
      show ?thesis
        using emit_shuffle_rules_mono [of "(insert ?key seen_tags, rs @ [?rule])" tg items]
        by (auto simp: Let_def)
    next
      case False
      from "2.hyps"(2) [OF refl False mem "2.prems"(2)] False
      show ?thesis by (auto simp: Let_def)
    qed
  qed
qed

lemma sens_coords: "sensitive_keyword_check ''coords'' {}"
  by (simp add: sensitive_keyword_check_def SENSITIVE_KEYWORDS_def lower_def lower_char_def)

lemma sens_grid: "\<not> sensitive_keyword_check ''grid'' {}"
  by (simp add: sensitive_keyword_check_def SENSITIVE_KEYWORDS_def lower_def lower_char_def)

lemma sens_p: "\<not> sensitive_keyword_check ''p'' S"
  by (simp add: sensitive_keyword_check_def SENSITIVE_KEYWORDS_def lower_def lower_char_def)

text \<open>
  C7 (as stated, refuted). The root \<open>coords\<close> has two children \<open>p\<close>; its tag contains
  the keyword \<open>coord\<close>, so the first check emits the \<open>mask_value\<close> rule and the loop
  continues with the next element: no \<open>shuffle_siblings\<close> rule is emitted.
\<close>

theorem generate_policy_skips_shuffle_counterexample:
  "generate_policy [[''c.xml''] \<mapsto> XmlFile coords_doc] ''2024-01-01'' [''c.xml''] =
     Inr \<lparr>version = ''1.0'', global_masking = False,
          rules = [\<lparr>tag_pattern = ''coords'', action = ''mask_value'', parameters = None\<rparr>],
          policy_created_at = Some ''2024-01-01''\<rparr>
   \<and> tag coords_doc = Tag None ''coords''
   \<and> child_count coords_doc ''p'' = 2"
  by (simp add: generate_policy_def parse_def coords_doc_def detect_elem_def sens_coords sens_p
      numeric_leaf_check_def strip_def child_count_def)

text \<open>
  C7 (amended). For an element with a string tag: when the keyword check or the numeric
  check holds, the loop body appends the \<open>mask_value\<close> rule for the tag and nothing
  else. When neither holds, then for every non-empty child tag that occurs at least
  twice among the children the key \<open>parent/child\<close> is in the seen set afterwards, and
  unless it was there before, the \<open>shuffle_siblings\<close> rule with that parent tag and
  \<open>child_tag\<close> is in the rule list.
\<close>

theorem detect_elem_checks:
  assumes "tag elem = Tag ns tg"
  shows "(sensitive_keyword_check tg seen_tags \<or> numeric_leaf_check elem tg seen_tags \<longrightarrow>
            detect_elem elem (seen_tags, rs) =
              (insert tg seen_tags,
               rs @ [\<lparr>tag_pattern = tg, action = ''mask_value'', parameters = None\<rparr>]))
       \<and> (\<not> sensitive_keyword_check tg seen_tags \<and> \<not> numeric_leaf_check elem tg seen_tags \<longrightarrow>
            (\<forall>ctag. ctag \<noteq> [] \<and> child_count elem ctag \<ge> 2 \<longrightarrow>
               tg @ ''/'' @ ctag \<in> fst (detect_elem elem (seen_tags, rs))
               \<and> (tg @ ''/'' @ ctag \<notin> seen_tags \<longrightarrow>
                    \<lparr>tag_pattern = tg, action = ''shuffle_siblings'',
                     parameters = Some [(''child_tag'', ctag)]\<rparr>
                      \<in> set (snd (detect_elem elem (seen_tags, rs))))))"
proof (intro conjI impI allI)
  assume "sensitive_keyword_check tg seen_tags \<or> numeric_leaf_check elem tg seen_tags"
  then show "detect_elem elem (seen_tags, rs) =
              (insert tg seen_tags,
               rs @ [\<lparr>tag_pattern = tg, action = ''mask_value'', parameters = None\<rparr>])"
    using assms by (auto simp: detect_elem_def Let_def)
next
  fix ctag
  assume no: "\<not> sensitive_keyword_check tg seen_tags \<and> \<not> numeric_leaf_check elem tg seen_tags"
    and c: "ctag \<noteq> [] \<and> child_count elem ctag \<ge> 2"
  have run: "detect_elem elem (seen_tags, rs) =
               emit_shuffle_rules tg (count_child_tags (children elem) []) (seen_tags, rs)"
    using assms no by (simp add: detect_elem_def Let_def)
  have "child_count elem ctag \<noteq> 0"
    using c by simp
  then have "map_of (count_child_tags (children elem) []) ctag = Some (child_count elem ctag)"
    using c count_child_tags_lookup [of ctag "children elem" "[]"]
    by (simp add: child_count_def Let_def)
  then have "(ctag, child_count elem ctag) \<in> set (count_child_tags (children elem) [])"
    by (rule map_of_SomeD)
  from emit_shuffle_rules_emits [OF this, of tg seen_tags rs] c
  have both: "tg @ ''/'' @ ctag \<in> fst (detect_elem elem (seen_tags, rs))
         \<and> (tg @ ''/'' @ ctag \<notin> seen_tags \<longrightarrow>
              \<lparr>tag_pattern = tg, action = ''shuffle_siblings'', parameters = Some [(''child_tag'', ctag)]\<rparr>
                \<in> set (snd (detect_elem elem (seen_tags, rs))))"
    unfolding run by simp
  from both show "tg @ ''/'' @ ctag \<in> fst (detect_elem elem (seen_tags, rs))" by simp
  assume "tg @ ''/'' @ ctag \<notin> seen_tags"
  with both show "\<lparr>tag_pattern = tg, action = ''shuffle_siblings'',
                     parameters = Some [(''child_tag'', ctag)]\<rparr>
                      \<in> set (snd (detect_elem elem (seen_tags, rs)))" by simp
qed

theorem detect_elem_checks_witness:
  "detect_elem coords_doc ({}, []) =
     ({''coords''}, [\<lparr>tag_pattern = ''coords'', action = ''mask_value'', parameters = None\<rparr>])
   \<and> \<lparr>tag_pattern = ''grid'', action = ''shuffle_siblings'', parameters = Some [(''child_tag'', ''p'')]\<rparr>
        \<in> set (snd (detect_elem grid_doc ({}, [])))"
proof -
  have t1: "tag coords_doc = Tag None ''coords''" by (simp add: coords_doc_def)
  have t2: "tag grid_doc = Tag None ''grid''" by (simp add: grid_doc_def)
  have n2: "\<not> numeric_leaf_check grid_doc ''grid'' {}"
    by (simp add: numeric_leaf_check_def grid_doc_def strip_def)
  have c2: "child_count grid_doc ''p'' \<ge> 2" by (simp add: child_count_def grid_doc_def)
  from detect_elem_checks [OF t1, of "{}" "[]"] sens_coords
  have a: "detect_elem coords_doc ({}, []) =
     ({''coords''}, [\<lparr>tag_pattern = ''coords'', action = ''mask_value'', parameters = None\<rparr>])"
    by simp
  from detect_elem_checks [OF t2, of "{}" "[]"] sens_grid n2 c2
  have b: "\<lparr>tag_pattern = ''grid'', action = ''shuffle_siblings'', parameters = Some [(''child_tag'', ''p'')]\<rparr>
        \<in> set (snd (detect_elem grid_doc ({}, [])))"
    by simp
  from a b show ?thesis by simp
qed

section \<open>Properties of the masking stage\<close>

lemma mask_text_eq:
  "mask_text cfg env tg tx (v, k) =
     (case masked_literal cfg (Element tg tx ats cs tlx) of
        None \<Rightarrow> Inr (tx, (v, k))
      | Some lit \<Rightarrow>
          Inr (Some (placeholder_of (fst (env k))),
               (v\<lparr>entries := AList.update (placeholder_of (fst (env k)))
                     \<lparr>masked_value = placeholder_of (fst (env k)), original_value = lit,
                      created_at = snd (env k)\<rparr> (entries v)\<rparr>,
                Suc k)))"
  by (cases tg) (simp_all add: mask_text_def masked_literal_def store_default placeholder_of_def Let_def)

lemma stores_between_refl: "stores_between env st st"
  by (auto simp: stores_between_def)


lemma stores_between_trans:
  assumes "stores_between env a b" and "stores_between env b c"
  shows "stores_between env a c"
proof -
  have ab: "snd a \<le> snd b" and bc: "snd b \<le> snd c"
    using assms by (simp_all add: stores_between_def)
  have pa: "path (fst c) = path (fst a)"
    using assms by (simp add: stores_between_def)
  have da: "dom (map_of (entries (fst b))) =
         dom (map_of (entries (fst a)))
           \<union> {placeholder_of (fst (env j)) | j. snd a \<le> j \<and> j < snd b}"
    using assms(1) by (simp add: stores_between_def)
  have db: "dom (map_of (entries (fst c))) =
         dom (map_of (entries (fst b)))
           \<union> {placeholder_of (fst (env j)) | j. snd b \<le> j \<and> j < snd c}"
    using assms(2) by (simp add: stores_between_def)
  have split: "(snd a \<le> j \<and> j < snd c) = ((snd a \<le> j \<and> j < snd b) \<or> (snd b \<le> j \<and> j < snd c))" for j
    using ab bc by linarith
  have r: "{placeholder_of (fst (env j)) | j. snd a \<le> j \<and> j < snd c}
         = {placeholder_of (fst (env j)) | j. snd a \<le> j \<and> j < snd b}
           \<union> {placeholder_of (fst (env j)) | j. snd b \<le> j \<and> j < snd c}"
    unfolding split by blast
  have d: "dom (map_of (entries (fst c))) =
         dom (map_of (entries (fst a)))
           \<union> {placeholder_of (fst (env j)) | j. snd a \<le> j \<and> j < snd c}"
    unfolding r db da by (simp add: Un_assoc)
  have fa: "\<forall>key. (\<forall>j. snd a \<le> j \<and> j < snd b \<longrightarrow> key \<noteq> placeholder_of (fst (env j)))
            \<longrightarrow> map_of (entries (fst b)) key = map_of (entries (fst a)) key"
    using assms(1) by (simp add: stores_between_def)
  have fb: "\<forall>key. (\<forall>j. snd b \<le> j \<and> j < snd c \<longrightarrow> key \<noteq> placeholder_of (fst (env j)))
            \<longrightarrow> map_of (entries (fst c)) key = map_of (entries (fst b)) key"
    using assms(2) by (simp add: stores_between_def)
  have f: "map_of (entries (fst c)) key = map_of (entries (fst a)) key"
    if h: "\<forall>j. snd a \<le> j \<and> j < snd c \<longrightarrow> key \<noteq> placeholder_of (fst (env j))" for key
  proof -
    have "\<forall>j. snd b \<le> j \<and> j < snd c \<longrightarrow> key \<noteq> placeholder_of (fst (env j))"
      using h split by blast
    then have "map_of (entries (fst c)) key = map_of (entries (fst b)) key"
      using fb by blast
    moreover have "\<forall>j. snd a \<le> j \<and> j < snd b \<longrightarrow> key \<noteq> placeholder_of (fst (env j))"
      using h split by blast
    then have "map_of (entries (fst b)) key = map_of (entries (fst a)) key"
      using fa by blast
    ultimately show ?thesis by simp
  qed
  show ?thesis
    unfolding stores_between_def using ab bc pa d f by auto
qed


lemma stores_between_store:
  "stores_between env (v, k)
     (v\<lparr>entries := AList.update (placeholder_of (fst (env k))) entry (entries v)\<rparr>, Suc k)"
proof -
  have one: "(k \<le> j \<and> j < Suc k) = (j = k)" for j
    by linarith
  have "{placeholder_of (fst (env j)) | j. k \<le> j \<and> j < Suc k} = {placeholder_of (fst (env k))}"
    unfolding one by simp
  then show ?thesis
    unfolding stores_between_def by (simp add: update_conv' one)
qed

lemma mask_text_between:
  "mask_text cfg env tg tx st = Inr (tx', st') \<Longrightarrow> stores_between env st st'"
proof (cases st)
  case (Pair v k)
  assume "mask_text cfg env tg tx st = Inr (tx', st')"
  then show ?thesis
    unfolding Pair mask_text_eq [of cfg env tg tx v k "[]" "[]" None]
    by (auto simp: stores_between_refl stores_between_store split: option.splits)
qed

lemma mask_between:
  "mask_elem cfg env e st = Inr (e', st') \<Longrightarrow> stores_between env st st'"
  "mask_elems cfg env es st = Inr (es', st') \<Longrightarrow> stores_between env st st'"
proof (induction cfg env e st and cfg env es st arbitrary: e' st' and es' st'
    rule: mask_elem_mask_elems.induct)
  case (1 cfg env tg tx ats cs tlx st)
  from "1.prems" obtain tx1 st1 cs1 where
    a: "mask_text cfg env tg tx st = Inr (tx1, st1)" and
    b: "mask_elems cfg env cs st1 = Inr (cs1, st')"
    by (auto split: sum.splits)
  from mask_text_between [OF a] "1.IH" [OF a refl b]
  show ?case by (rule stores_between_trans)
next
  case (2 cfg env st)
  then show ?case by (simp add: stores_between_refl)
next
  case (3 cfg env c cs st)
  from "3.prems" obtain c1 st1 cs1 where
    a: "mask_elem cfg env c st = Inr (c1, st1)" and
    b: "mask_elems cfg env cs st1 = Inr (cs1, st')"
    by (auto split: sum.splits)
  from "3.IH"(1) [OF a] "3.IH"(2) [OF a refl b]
  show ?case by (rule stores_between_trans)
qed


lemma stores_between_keeps:
  assumes "stores_between env st st'"
    and "\<forall>i. snd st \<le> i \<and> i < snd st' \<longrightarrow> placeholder_of (fst (env i)) \<noteq> key"
  shows "map_of (entries (fst st')) key = map_of (entries (fst st)) key"
proof -
  have "\<forall>j. snd st \<le> j \<and> j < snd st' \<longrightarrow> key \<noteq> placeholder_of (fst (env j))"
    using assms(2) by blast
  then show ?thesis
    using assms(1) unfolding stores_between_def by blast
qed

lemma stores_between_le: "stores_between env st st' \<Longrightarrow> snd st \<le> snd st'"
  by (simp add: stores_between_def)

lemma mask_node:
  "mask_elem cfg env e st = Inr (e', st') \<Longrightarrow> node_at e is = Some n \<Longrightarrow>
   masked_literal cfg n = Some lit \<Longrightarrow>
   \<exists>j n'. snd st \<le> j \<and> j < snd st' \<and> node_at e' is = Some n'
     \<and> elem_text n' = Some (placeholder_of (fst (env j))) \<and> tag n' = tag n
     \<and> ((\<forall>i. j < i \<and> i < snd st' \<longrightarrow> placeholder_of (fst (env i)) \<noteq> placeholder_of (fst (env j)))
          \<longrightarrow> map_of (entries (fst st')) (placeholder_of (fst (env j))) =
                Some \<lparr>masked_value = placeholder_of (fst (env j)), original_value = lit,
                      created_at = snd (env j)\<rparr>)"
  "mask_elems cfg env es st = Inr (es', st') \<Longrightarrow> m < length es \<Longrightarrow> node_at (es ! m) is = Some n \<Longrightarrow>
   masked_literal cfg n = Some lit \<Longrightarrow>
   \<exists>j n'. snd st \<le> j \<and> j < snd st' \<and> m < length es' \<and> node_at (es' ! m) is = Some n'
     \<and> elem_text n' = Some (placeholder_of (fst (env j))) \<and> tag n' = tag n
     \<and> ((\<forall>i. j < i \<and> i < snd st' \<longrightarrow> placeholder_of (fst (env i)) \<noteq> placeholder_of (fst (env j)))
          \<longrightarrow> map_of (entries (fst st')) (placeholder_of (fst (env j))) =
                Some \<lparr>masked_value = placeholder_of (fst (env j)), original_value = lit,
                      created_at = snd (env j)\<rparr>)"
proof (induction cfg env e st and cfg env es st arbitrary: e' st' "is" n lit and es' st' m "is" n lit
    rule: mask_elem_mask_elems.induct)
  case (1 cfg env tg tx ats cs tlx st)
  from "1.prems"(1) obtain tx1 st1 cs1 where
    a: "mask_text cfg env tg tx st = Inr (tx1, st1)" and
    b: "mask_elems cfg env cs st1 = Inr (cs1, st')" and
    e': "e' = Element tg tx1 ats cs1 tlx"
    by (auto split: sum.splits)
  have le1: "snd st \<le> snd st1"
    using mask_text_between [OF a] by (rule stores_between_le)
  have sb: "stores_between env st1 st'"
    using b by (rule mask_between(2))
  show ?case
  proof (cases "is")
    case Nil
    then have n: "n = Element tg tx ats cs tlx"
      using "1.prems"(2) by simp
    let ?p = "placeholder_of (fst (env (snd st)))"
    let ?entry = "\<lparr>masked_value = ?p, original_value = lit, created_at = snd (env (snd st))\<rparr>"
    have "mask_text cfg env tg tx (fst st, snd st) =
            Inr (Some ?p, (fst st\<lparr>entries := AList.update ?p ?entry (entries (fst st))\<rparr>, Suc (snd st)))"
      using "1.prems"(3) unfolding n mask_text_eq [of cfg env tg tx "fst st" "snd st" ats cs tlx]
      by simp
    with a have tx1: "tx1 = Some ?p"
      and st1: "st1 = (fst st\<lparr>entries := AList.update ?p ?entry (entries (fst st))\<rparr>, Suc (snd st))"
      by simp_all
    have lt: "snd st < snd st'"
      using stores_between_le [OF sb] st1 by simp
    have keep: "map_of (entries (fst st')) ?p = Some ?entry"
      if h: "\<forall>i. snd st < i \<and> i < snd st' \<longrightarrow> placeholder_of (fst (env i)) \<noteq> ?p"
    proof -
      have "\<forall>i. snd st1 \<le> i \<and> i < snd st' \<longrightarrow> placeholder_of (fst (env i)) \<noteq> ?p"
        using h st1 by simp
      from stores_between_keeps [OF sb this]
      show ?thesis by (simp add: st1 update_conv')
    qed
    have "snd st \<le> snd st \<and> snd st < snd st' \<and> node_at e' is = Some e'
       \<and> elem_text e' = Some ?p \<and> tag e' = tag n
       \<and> ((\<forall>i. snd st < i \<and> i < snd st' \<longrightarrow> placeholder_of (fst (env i)) \<noteq> ?p)
            \<longrightarrow> map_of (entries (fst st')) ?p = Some ?entry)"
      using lt keep by (simp add: Nil e' tx1 n)
    then show ?thesis by blast
  next
    case (Cons i is')
    have i: "i < length cs" and at: "node_at (cs ! i) is' = Some n"
      using "1.prems"(2) by (simp_all add: Cons split: if_splits)
    from "1.IH" [OF a refl b i at "1.prems"(3)]
    obtain j n' where j: "snd st1 \<le> j" "j < snd st'" "i < length cs1" "node_at (cs1 ! i) is' = Some n'"
      "elem_text n' = Some (placeholder_of (fst (env j)))" "tag n' = tag n"
      "(\<forall>i. j < i \<and> i < snd st' \<longrightarrow> placeholder_of (fst (env i)) \<noteq> placeholder_of (fst (env j)))
          \<longrightarrow> map_of (entries (fst st')) (placeholder_of (fst (env j))) =
                Some \<lparr>masked_value = placeholder_of (fst (env j)), original_value = lit,
                      created_at = snd (env j)\<rparr>"
      by blast
    have "node_at e' is = Some n'"
      using j(3,4) by (simp add: e' Cons)
    moreover have "snd st \<le> j"
      using le1 j(1) by simp
    ultimately show ?thesis
      using j(2,5,6,7) by blast
  qed
next
  case (2 cfg env st)
  then show ?case by simp
next
  case (3 cfg env c cs st)
  from "3.prems"(1) obtain c1 st1 cs1 where
    a: "mask_elem cfg env c st = Inr (c1, st1)" and
    b: "mask_elems cfg env cs st1 = Inr (cs1, st')" and
    es': "es' = c1 # cs1"
    by (auto split: sum.splits)
  have le1: "snd st \<le> snd st1"
    using mask_between(1) [OF a] by (rule stores_between_le)
  have sb: "stores_between env st1 st'"
    using b by (rule mask_between(2))
  have le2: "snd st1 \<le> snd st'"
    using sb by (rule stores_between_le)
  show ?case
  proof (cases m)
    case 0
    then have at: "node_at c is = Some n"
      using "3.prems"(3) by simp
    from "3.IH"(1) [OF a at "3.prems"(4)]
    obtain j n' where j: "snd st \<le> j" "j < snd st1" "node_at c1 is = Some n'"
      "elem_text n' = Some (placeholder_of (fst (env j)))" "tag n' = tag n"
      "(\<forall>i. j < i \<and> i < snd st1 \<longrightarrow> placeholder_of (fst (env i)) \<noteq> placeholder_of (fst (env j)))
          \<longrightarrow> map_of (entries (fst st1)) (placeholder_of (fst (env j))) =
                Some \<lparr>masked_value = placeholder_of (fst (env j)), original_value = lit,
                      created_at = snd (env j)\<rparr>"
      by blast
    have keep: "map_of (entries (fst st')) (placeholder_of (fst (env j))) =
                Some \<lparr>masked_value = placeholder_of (fst (env j)), original_value = lit,
                      created_at = snd (env j)\<rparr>"
      if h: "\<forall>i. j < i \<and> i < snd st' \<longrightarrow> placeholder_of (fst (env i)) \<noteq> placeholder_of (fst (env j))"
    proof -
      have "\<forall>i. j < i \<and> i < snd st1 \<longrightarrow> placeholder_of (fst (env i)) \<noteq> placeholder_of (fst (env j))"
        using h le2 by auto
      with j(6) have one: "map_of (entries (fst st1)) (placeholder_of (fst (env j))) =
                Some \<lparr>masked_value = placeholder_of (fst (env j)), original_value = lit,
                      created_at = snd (env j)\<rparr>"
        by blast
      have "\<forall>i. snd st1 \<le> i \<and> i < snd st' \<longrightarrow> placeholder_of (fst (env i)) \<noteq> placeholder_of (fst (env j))"
        using h j(2) by auto
      from stores_between_keeps [OF sb this] one
      show ?thesis by simp
    qed
    have "snd st \<le> j \<and> j < snd st' \<and> m < length es' \<and> node_at (es' ! m) is = Some n'
        \<and> elem_text n' = Some (placeholder_of (fst (env j))) \<and> tag n' = tag n
        \<and> ((\<forall>i. j < i \<and> i < snd st' \<longrightarrow> placeholder_of (fst (env i)) \<noteq> placeholder_of (fst (env j)))
          \<longrightarrow> map_of (entries (fst st')) (placeholder_of (fst (env j))) =
                Some \<lparr>masked_value = placeholder_of (fst (env j)), original_value = lit,
                      created_at = snd (env j)\<rparr>)"
      using j(1,2,3,4,5) le2 keep by (simp add: es' 0)
    then show ?thesis by blast
  next
    case (Suc m')
    then have m': "m' < length cs" and at: "node_at (cs ! m') is = Some n"
      using "3.prems"(2,3) by simp_all
    from "3.IH"(2) [OF a refl b m' at "3.prems"(4)]
    obtain j n' where j: "snd st1 \<le> j" "j < snd st'" "m' < length cs1" "node_at (cs1 ! m') is = Some n'"
      "elem_text n' = Some (placeholder_of (fst (env j)))" "tag n' = tag n"
      "(\<forall>i. j < i \<and> i < snd st' \<longrightarrow> placeholder_of (fst (env i)) \<noteq> placeholder_of (fst (env j)))
          \<longrightarrow> map_of (entries (fst st')) (placeholder_of (fst (env j))) =
                Some \<lparr>masked_value = placeholder_of (fst (env j)), original_value = lit,
                      created_at = snd (env j)\<rparr>"
      by blast
    have "m < length es' \<and> node_at (es' ! m) is = Some n'"
      using j(3,4) by (simp add: es' Suc)
    moreover have "snd st \<le> j"
      using le1 j(1) by simp
    ultimately show ?thesis
      using j(2,5,6,7) by blast
  qed
qed


lemma mask_count:
  "mask_elem cfg env e st = Inr (e', st') \<Longrightarrow> snd st' = snd st + masked_count cfg e"
  "mask_elems cfg env es st = Inr (es', st') \<Longrightarrow>
     snd st' = snd st + length (filter (\<lambda>n. masked_literal cfg n \<noteq> None) (concat (map iter es)))"
proof (induction cfg env e st and cfg env es st arbitrary: e' st' and es' st'
    rule: mask_elem_mask_elems.induct)
  case (1 cfg env tg tx ats cs tlx st)
  from "1.prems" obtain tx1 st1 cs1 where
    a: "mask_text cfg env tg tx st = Inr (tx1, st1)" and
    b: "mask_elems cfg env cs st1 = Inr (cs1, st')"
    by (auto split: sum.splits)
  have "snd st1 = snd st + (if masked_literal cfg (Element tg tx ats cs tlx) \<noteq> None then 1 else 0)"
    using a mask_text_eq [of cfg env tg tx "fst st" "snd st" ats cs tlx]
    by (auto split: option.splits)
  with "1.IH" [OF a refl b] show ?case
    by (simp add: masked_count_def)
next
  case (2 cfg env st)
  then show ?case by simp
next
  case (3 cfg env c cs st)
  from "3.prems" obtain c1 st1 cs1 where
    a: "mask_elem cfg env c st = Inr (c1, st1)" and
    b: "mask_elems cfg env cs st1 = Inr (cs1, st')"
    by (auto split: sum.splits)
  from "3.IH"(1) [OF a] "3.IH"(2) [OF a refl b] show ?case
    by (simp add: masked_count_def)
qed

lemma mask_elem_total:
  "\<exists>r. mask_elem cfg env e st = Inr r"
  "\<exists>r. mask_elems cfg env es st = Inr r"
proof (induction cfg env e st and cfg env es st rule: mask_elem_mask_elems.induct)
  case (1 cfg env tg tx ats cs tlx st)
  obtain tx1 st1 where a: "mask_text cfg env tg tx st = Inr (tx1, st1)"
    using mask_text_eq [of cfg env tg tx "fst st" "snd st" ats cs tlx]
    by (cases "masked_literal cfg (Element tg tx ats cs tlx)") auto
  from "1.IH" [OF a refl] obtain r where "mask_elems cfg env cs st1 = Inr r"
    by blast
  with a show ?case by (cases r) simp
next
  case (2 cfg env st)
  then show ?case by simp
next
  case (3 cfg env c cs st)
  from "3.IH"(1) obtain c1 st1 where a: "mask_elem cfg env c st = Inr (c1, st1)"
    by (metis surj_pair)
  from "3.IH"(2) [OF a refl] obtain r where "mask_elems cfg env cs st1 = Inr r"
    by blast
  with a show ?case by (cases r) simp
qed

lemma node_at_shadow:
  "node_at e is = Some n \<Longrightarrow>
   \<exists>n'. node_at (shadow_elem tag_map e) is = Some n' \<and> elem_text n' = elem_text n"
proof (induction "is" arbitrary: e)
  case Nil
  then show ?case by (cases e) auto
next
  case (Cons i is')
  obtain tg tx ats cs tlx where e: "e = Element tg tx ats cs tlx"
    by (cases e)
  from Cons.prems have i: "i < length cs" and at: "node_at (cs ! i) is' = Some n"
    by (simp_all add: e split: if_splits)
  from Cons.IH [OF at] i show ?case
    by (simp add: e)
qed

lemma VaultEntry_from_asdict: "VaultEntry_from (asdict entry) = Inr entry"
  by (simp add: VaultEntry_from_def asdict_def)

lemma load_entries_asdict:
  "load_entries (map (\<lambda>(key, entry). (key, asdict entry)) es) = Inr es"
  by (induction es) (auto simp: VaultEntry_from_asdict)

lemma load_after_save:
  "load (fst (save fs v)) (Vault_init (path v)) = Inr \<lparr>path = path v, entries = entries v\<rparr>"
  by (simp add: load_def save_def Vault_init_def load_entries_asdict Let_def)

lemma hexdigit_ishex: "ishex (hexdigit n)"
proof -
  have "n mod 16 < length ''0123456789abcdef''"
    by simp
  then have "''0123456789abcdef'' ! (n mod 16) \<in> set ''0123456789abcdef''"
    by (rule nth_mem)
  then show ?thesis
    by (simp only: ishex_def hexdigit_def)
qed

lemma ishex_alnum: "ishex c \<Longrightarrow> isalnum_ascii c"
  by (auto simp: ishex_def isalnum_ascii_def)

lemma uid_hex: "list_all ishex (take 12 (hex w))" "length (take 12 (hex w)) = 12"
proof -
  have "\<forall>c \<in> set (hex w). ishex c"
    by (auto simp: hex_def hexdigit_ishex)
  then have "\<forall>c \<in> set (take 12 (hex w)). ishex c"
    by (meson in_set_takeD)
  then show "list_all ishex (take 12 (hex w))"
    by (simp add: list_all_iff)
  show "length (take 12 (hex w)) = 12"
    by (simp add: length_hex)
qed

lemma rehydrate_xml_token:
  assumes "uid \<noteq> []" and "list_all isalnum_ascii uid"
    and "rest = [] \<or> \<not> isalnum_ascii (hd rest)"
  shows "rehydrate_xml v (''VAL_'' @ uid @ rest) =
           (case restore v (''VAL_'' @ uid) of Some original \<Rightarrow> original | None \<Rightarrow> ''VAL_'' @ uid)
           @ rehydrate_xml v rest"
proof -
  have tr: "takeWhile isalnum_ascii rest = []" and dr: "dropWhile isalnum_ascii rest = rest"
    using assms(3) by (cases rest; simp)+
  have tw: "takeWhile isalnum_ascii (uid @ rest) = uid"
    using assms(2) tr by (simp add: takeWhile_append2 list_all_iff)
  have dw: "dropWhile isalnum_ascii (uid @ rest) = rest"
    using assms(2) dr by (simp add: dropWhile_append2 list_all_iff)
  have "rehydrate_xml v (CHR ''V'' # (''AL_'' @ uid @ rest)) =
           (case restore v (''VAL_'' @ uid) of Some original \<Rightarrow> original | None \<Rightarrow> ''VAL_'' @ uid)
           @ rehydrate_xml v rest"
    by (subst rehydrate_xml.simps) (simp add: tw dw assms(1) Let_def split: option.splits)
  then show ?thesis by simp
qed


lemma mask_values_tree:
  "mask_values env (PyElementTree root) cfg st = Inr (tree1, st1) \<Longrightarrow>
   \<exists>root1. tree1 = PyElementTree root1 \<and> mask_elem cfg env root st = Inr (root1, st1)"
  by (auto simp: mask_values_def split: sum.splits)

lemma apply_gatekeeper_success:
  assumes run: "apply_gatekeeper rt env fs xml_path policy config output_dir tag_map = Inr ((sp, vp), fs')"
  shows "\<exists>root root1 v1.
     parse fs xml_path = Inr root
     \<and> (if global_masking policy \<or> filter (\<lambda>r. action r = ''mask_value'') (rules policy) \<noteq> []
        then mask_elem (masking config) env root (Vault_init (vault_path config), 0) = Inr (root1, v1)
        else (root1, v1) = (root, (Vault_init (vault_path config), 0)))
     \<and> \<not> (enabled (shuffling config)
            \<and> filter (\<lambda>r. action r = ''shuffle_siblings'') (rules policy) \<noteq> [])
     \<and> vp = vault_path config
     \<and> path (fst v1) = vault_path config
     \<and> fs' = (fs(sp \<mapsto> XmlFile (shadow_elem (case tag_map of None \<Rightarrow> DEFAULT_TAG_MAP | Some m \<Rightarrow> m) root1)))
              (vp \<mapsto> JsonFile (JObject (map (\<lambda>(key, entry). (key, asdict entry)) (entries (fst v1)))))"
proof -
  let ?active = "global_masking policy \<or> filter (\<lambda>r. action r = ''mask_value'') (rules policy) \<noteq> []"
  let ?shuf = "enabled (shuffling config)
            \<and> filter (\<lambda>r. action r = ''shuffle_siblings'') (rules policy) \<noteq> []"
  let ?v0 = "(Vault_init (vault_path config), 0 :: nat)"
  from run obtain root where root: "parse fs xml_path = Inr root"
    by (auto simp: apply_gatekeeper_def Let_def split: sum.splits)
  from run root obtain tree1 st1 where
    m: "(if ?active then mask_values env (PyElementTree root) (masking config) ?v0
         else Inr (PyElementTree root, ?v0)) = Inr (tree1, st1)"
    by (auto simp: apply_gatekeeper_def Let_def split: sum.splits prod.splits)
  obtain root1 where t1: "tree1 = PyElementTree root1"
    and m1: "if ?active then mask_elem (masking config) env root ?v0 = Inr (root1, st1)
             else (root1, st1) = (root, ?v0)"
    using m mask_values_tree [of env root "masking config" ?v0 tree1 st1]
    by (auto split: if_splits)
  have ns: "\<not> ?shuf"
  proof
    assume "?shuf"
    then have "isl (apply_gatekeeper rt env fs xml_path policy config output_dir tag_map)"
      by (auto simp: apply_gatekeeper_def Let_def mask_values_def shuffle_siblings_def
          apply_tag_shadowing_def split: sum.splits prod.splits treeish.splits)
    with run show False by simp
  qed
  have pv: "path (fst st1) = vault_path config"
  proof (cases ?active)
    case True
    with m1 have "mask_elem (masking config) env root ?v0 = Inr (root1, st1)" by simp
    from mask_between(1) [OF this] show ?thesis
      by (simp add: stores_between_def Vault_init_def)
  next
    case False
    with m1 show ?thesis by (auto simp: Vault_init_def)
  qed
  have res: "vp = vault_path config \<and>
     fs' = (fs(sp \<mapsto> XmlFile (shadow_elem (case tag_map of None \<Rightarrow> DEFAULT_TAG_MAP | Some m \<Rightarrow> m) root1)))
              (vp \<mapsto> JsonFile (JObject (map (\<lambda>(key, entry). (key, asdict entry)) (entries (fst st1)))))"
    using run root m ns pv unfolding t1
    by (cases st1)
       (auto simp: apply_gatekeeper_def Let_def apply_tag_shadowing_def write_tree_def save_def
          split: sum.splits prod.splits if_splits)
  from root m1 ns pv res show ?thesis
    by blast
qed

section \<open>Runs on the sample document\<close>

lemma mask_sample:
  "mask_elem MaskingConfig_default example_env sample_doc (Vault_init [''session_vault.json''], 0) =
   Inr (Element (Tag None ''root'') None []
          [leaf ''pressure'' ''VAL_000000000000'', leaf ''pressure'' ''VAL_000000000001''] None,
        (\<lparr>path = [''session_vault.json''], entries = sample_vault_entries\<rparr>, 2))"
  by code_simp

lemma parse_sample: "parse sample_fs [''data'', ''sample.xml''] = Inr sample_doc"
  by (simp add: parse_def sample_fs_def)

lemma parse_sample_after: "parse sample_fs_after [''data'', ''sample.xml''] = Inr sample_doc"
  by (simp add: parse_def sample_fs_def sample_fs_after_def)

lemma stem_sample: "stem [''data'', ''sample.xml''] = ''sample''"
  by code_simp

lemma shadow_sample:
  "shadow_elem DEFAULT_TAG_MAP (Element (Tag None ''root'') None []
          [leaf ''pressure'' ''VAL_000000000000'', leaf ''pressure'' ''VAL_000000000001''] None)
     = sample_sanitized"
  by code_simp

lemma run_sample:
  "apply_gatekeeper example_runtime example_env sample_fs [''data'', ''sample.xml''] mask_policy
     PolicyEngineConfig_default None None
   = Inr (([''data'', ''sample_sanitized.xml''], [''session_vault.json'']), sample_fs_after)"
  by (simp add: apply_gatekeeper_def parse_sample mask_policy_def PolicyEngineConfig_default_def
      ShufflingConfig_default_def mask_values_def mask_sample apply_tag_shadowing_def shadow_sample
      write_tree_def save_def stem_sample parent_def sample_fs_after_def Let_def
      del: shadow_elem.simps)

lemma run_sample_again:
  "apply_gatekeeper example_runtime example_env sample_fs_after [''data'', ''sample.xml''] mask_policy
     PolicyEngineConfig_default None None
   = Inr (([''data'', ''sample_sanitized.xml''], [''session_vault.json'']), sample_fs_after)"
proof -
  have "sample_fs_after([''data'', ''sample_sanitized.xml''] \<mapsto> XmlFile sample_sanitized,
               [''session_vault.json''] \<mapsto>
                 JsonFile (JObject (map (\<lambda>(key, entry). (key, asdict entry)) sample_vault_entries)))
        = sample_fs_after"
    by (auto simp: sample_fs_after_def)
  then show ?thesis
    by (simp add: apply_gatekeeper_def parse_sample_after mask_policy_def PolicyEngineConfig_default_def
      ShufflingConfig_default_def mask_values_def mask_sample apply_tag_shadowing_def shadow_sample
      write_tree_def save_def stem_sample parent_def Let_def
      del: shadow_elem.simps)
qed

lemma sample_keys:
  "json_keys sample_fs_after [''session_vault.json''] = {''VAL_000000000000'', ''VAL_000000000001''}"
  by (auto simp: json_keys_def sample_fs_after_def sample_vault_entries_def)

lemma example_env_0: "placeholder_of (fst (example_env 0)) = ''VAL_000000000000''"
  by code_simp

lemma example_env_1: "placeholder_of (fst (example_env (Suc 0))) = ''VAL_000000000001''"
  by code_simp

lemma masked_count_sample: "masked_count MaskingConfig_default sample_doc = 2"
  by code_simp

lemma example_env_distinct:
  "\<forall>i j. i < j \<and> j < masked_count MaskingConfig_default sample_doc
     \<longrightarrow> placeholder_of (fst (example_env i)) \<noteq> placeholder_of (fst (example_env j))"
proof (intro allI impI)
  fix i j :: nat
  assume "i < j \<and> j < masked_count MaskingConfig_default sample_doc"
  then have "i = 0" and "j = Suc 0"
    by (simp_all add: masked_count_sample)
  then show "placeholder_of (fst (example_env i)) \<noteq> placeholder_of (fst (example_env j))"
    by (simp add: example_env_0 example_env_1)
qed

lemma mask_sample_collided:
  "mask_elem MaskingConfig_default constant_env sample_doc (Vault_init [''session_vault.json''], 0) =
   Inr (Element (Tag None ''root'') None []
          [leaf ''pressure'' ''VAL_000000000000'', leaf ''pressure'' ''VAL_000000000000''] None,
        (\<lparr>path = [''session_vault.json''], entries = collided_vault_entries\<rparr>, 2))"
  by code_simp

lemma shadow_sample_collided:
  "shadow_elem DEFAULT_TAG_MAP (Element (Tag None ''root'') None []
          [leaf ''pressure'' ''VAL_000000000000'', leaf ''pressure'' ''VAL_000000000000''] None)
     = collided_sanitized"
  by code_simp

lemma masked_literal_sample:
  "masked_literal MaskingConfig_default (leaf ''pressure'' ''123.45'') = Some ''123.45''"
  by code_simp

lemma mask_custom_template:
  "mask_values example_env (PyElementTree (leaf ''pressure'' ''123.45''))
     (MaskingConfig_default\<lparr>uuid_format := ''ID-{uuid}''\<rparr>) (Vault_init [''session_vault.json''], 0)
   = Inr (PyElementTree (leaf ''pressure'' ''VAL_000000000000''),
          (\<lparr>path = [''session_vault.json''],
            entries = [(''VAL_000000000000'',
               \<lparr>masked_value = ''VAL_000000000000'', original_value = ''123.45'',
                created_at = ''2024-01-01T00:00:00+00:00''\<rparr>)]\<rparr>, 1))"
  by code_simp

lemma mask_default_leaf:
  "mask_values example_env (PyElementTree (leaf ''pressure'' ''123.45''))
     MaskingConfig_default (Vault_init [''session_vault.json''], 0)
   = Inr (PyElementTree (leaf ''pressure'' ''VAL_000000000000''),
          (\<lparr>path = [''session_vault.json''],
            entries = [(''VAL_000000000000'',
               \<lparr>masked_value = ''VAL_000000000000'', original_value = ''123.45'',
                created_at = ''2024-01-01T00:00:00+00:00''\<rparr>)]\<rparr>, 1))"
  by code_simp

section \<open>Properties of the pipeline\<close>

lemma apply_gatekeeper_raises_when_shuffling:
  assumes "enabled (shuffling config)"
    and "filter (\<lambda>r. action r = ''shuffle_siblings'') (rules policy) \<noteq> []"
  shows "isl (apply_gatekeeper rt env fs xml_path policy config output_dir tag_map)"
  using assms
  by (auto simp: apply_gatekeeper_def Let_def mask_values_def shuffle_siblings_def
      apply_tag_shadowing_def split: sum.splits prod.splits treeish.splits)

text \<open>
  C1 (the code departs from the claim). The policy has a \<open>shuffle_siblings\<close> rule and
  shuffling is enabled: \<open>shuffle_siblings\<close> returns the serialized text, which
  \<open>apply_gatekeeper\<close> passes on as the tree; tag shadowing calls \<open>getroot\<close> on the
  string and the run ends with an AttributeError. Nothing is written.
\<close>

theorem apply_gatekeeper_shuffle_raises:
  "apply_gatekeeper example_runtime example_env sample_fs [''data'', ''sample.xml''] shuffle_policy
     PolicyEngineConfig_default None None = Inl AttributeError"
  by (simp add: apply_gatekeeper_def parse_sample shuffle_policy_def PolicyEngineConfig_default_def
      ShufflingConfig_default_def mask_values_def mask_sample shuffle_siblings_def
      apply_tag_shadowing_def)

text \<open>
  C9 (as stated, refuted). The configuration sets the template \<open>ID-{uuid}\<close>; the
  masking loop calls \<open>store\<close> without a template, so the placeholder follows
  \<open>VAL_{uuid}\<close>, and its identifier has 12 hexadecimal digits.
\<close>

theorem masking_ignores_template_counterexample:
  "mask_values example_env (PyElementTree (leaf ''pressure'' ''123.45''))
     (MaskingConfig_default\<lparr>uuid_format := ''ID-{uuid}''\<rparr>) (Vault_init [''session_vault.json''], 0)
   = Inr (PyElementTree (leaf ''pressure'' ''VAL_000000000000''),
          (\<lparr>path = [''session_vault.json''],
            entries = [(''VAL_000000000000'',
               \<lparr>masked_value = ''VAL_000000000000'', original_value = ''123.45'',
                created_at = ''2024-01-01T00:00:00+00:00''\<rparr>)]\<rparr>, 1))
   \<and> uuid_format (MaskingConfig_default\<lparr>uuid_format := ''ID-{uuid}''\<rparr>) = ''ID-{uuid}''
   \<and> format_uuid ''ID-{uuid}'' ''000000000000'' = Inr ''ID-000000000000''
   \<and> length ''000000000000'' = 12"
  using mask_custom_template by simp

text \<open>
  C9 (amended). With the default template \<open>VAL_{uuid}\<close> configured, for every element
  that the masking loop masks, the element at the same place of the result carries a
  placeholder that is a key of the vault and is the configured template with an
  identifier of exactly 12 lower-case hexadecimal digits, the first 12 digits of the
  \<open>uuid4\<close> drawn by one of the calls of \<open>store\<close> of this run.
\<close>

theorem masking_placeholder_format:
  assumes "mask_values env tree masking_config (v, k) = Inr (tree', (v', k'))"
    and "tree = PyElementTree root \<or> tree = PyElement root"
    and "node_at root pos = Some n"
    and "masked_literal masking_config n = Some lit"
    and "uuid_format masking_config = default_format"
  shows "\<exists>root' n' j uid p.
           tree' = PyElementTree root' \<and> node_at root' pos = Some n' \<and> elem_text n' = Some p
           \<and> p \<in> dom (map_of (entries v'))
           \<and> k \<le> j \<and> j < k' \<and> uid = take 12 (hex (uuid4 (fst (env j))))
           \<and> format_uuid (uuid_format masking_config) uid = Inr p
           \<and> length uid = 12 \<and> list_all ishex uid"
proof -
  from assms(1,2) obtain root' where t': "tree' = PyElementTree root'"
    and m: "mask_elem masking_config env root (v, k) = Inr (root', (v', k'))"
    by (auto simp: mask_values_def split: sum.splits)
  from mask_node(1) [OF m assms(3,4)]
  obtain j n' where j: "k \<le> j" "j < k'" "node_at root' pos = Some n'"
      "elem_text n' = Some (placeholder_of (fst (env j)))"
    by auto
  let ?uid = "take 12 (hex (uuid4 (fst (env j))))"
  have "dom (map_of (entries v')) =
         dom (map_of (entries v)) \<union> {placeholder_of (fst (env j)) | j. k \<le> j \<and> j < k'}"
    using mask_between(1) [OF m] by (simp add: stores_between_def)
  with j(1,2) have d: "placeholder_of (fst (env j)) \<in> dom (map_of (entries v'))"
    by blast
  have f: "format_uuid (uuid_format masking_config) ?uid = Inr (placeholder_of (fst (env j)))"
    by (simp add: assms(5) format_uuid_default placeholder_of_def)
  from t' j d f uid_hex [of "uuid4 (fst (env j))"] show ?thesis
    by blast
qed

theorem masking_placeholder_format_witness:
  "mask_values example_env (PyElementTree (leaf ''pressure'' ''123.45''))
     MaskingConfig_default (Vault_init [''session_vault.json''], 0)
   = Inr (PyElementTree (leaf ''pressure'' ''VAL_000000000000''),
          (\<lparr>path = [''session_vault.json''],
            entries = [(''VAL_000000000000'',
               \<lparr>masked_value = ''VAL_000000000000'', original_value = ''123.45'',
                created_at = ''2024-01-01T00:00:00+00:00''\<rparr>)]\<rparr>, 1))
   \<and> node_at (leaf ''pressure'' ''123.45'') [] = Some (leaf ''pressure'' ''123.45'')
   \<and> masked_literal MaskingConfig_default (leaf ''pressure'' ''123.45'') = Some ''123.45''
   \<and> uuid_format MaskingConfig_default = default_format
   \<and> (\<exists>root' n' j uid p.
           PyElementTree (leaf ''pressure'' ''VAL_000000000000'') = PyElementTree root'
           \<and> node_at root' [] = Some n' \<and> elem_text n' = Some p
           \<and> p \<in> dom (map_of (entries \<lparr>path = [''session_vault.json''],
                 entries = [(''VAL_000000000000'',
                   \<lparr>masked_value = ''VAL_000000000000'', original_value = ''123.45'',
                    created_at = ''2024-01-01T00:00:00+00:00''\<rparr>)]\<rparr>))
           \<and> 0 \<le> j \<and> j < 1 \<and> uid = take 12 (hex (uuid4 (fst (example_env j))))
           \<and> format_uuid (uuid_format MaskingConfig_default) uid = Inr p
           \<and> length uid = 12 \<and> list_all ishex uid)"
proof -
  have u: "uuid_format MaskingConfig_default = default_format"
    by (simp add: MaskingConfig_default_def default_format_def)
  have n: "node_at (leaf ''pressure'' ''123.45'') [] = Some (leaf ''pressure'' ''123.45'')"
    by simp
  have t: "PyElementTree (leaf ''pressure'' ''123.45'') = PyElementTree (leaf ''pressure'' ''123.45'')
           \<or> PyElementTree (leaf ''pressure'' ''123.45'') = PyElement (leaf ''pressure'' ''123.45'')"
    by simp
  show ?thesis
    by (intro conjI mask_default_leaf n masked_literal_sample u
        masking_placeholder_format [OF mask_default_leaf t n masked_literal_sample u])
qed

text \<open>
  C2 (as stated, refuted). Both calls of \<open>store\<close> of a run receive the same random
  bytes: the two masked elements carry the same placeholder, the vault holds one entry,
  and rehydration yields \<open>500.0\<close> where the document had \<open>123.45\<close>.
\<close>

theorem pipeline_roundtrip_counterexample:
  "apply_gatekeeper example_runtime constant_env sample_fs [''data'', ''sample.xml''] mask_policy
     PolicyEngineConfig_default None None
   = Inr (([''data'', ''sample_sanitized.xml''], [''session_vault.json'']), collided_fs_after)
   \<and> node_at sample_doc [0] = Some (leaf ''pressure'' ''123.45'')
   \<and> masked_literal MaskingConfig_default (leaf ''pressure'' ''123.45'') = Some ''123.45''
   \<and> node_at collided_sanitized [0]
       = Some (Element (Tag None ''metric_alpha'') (Some ''VAL_000000000000'') [] [] None)
   \<and> load collided_fs_after (Vault_init [''session_vault.json''])
       = Inr \<lparr>path = [''session_vault.json''], entries = collided_vault_entries\<rparr>
   \<and> restore \<lparr>path = [''session_vault.json''], entries = collided_vault_entries\<rparr>
         ''VAL_000000000000'' = Some ''500.0''
   \<and> rehydrate_xml \<lparr>path = [''session_vault.json''], entries = collided_vault_entries\<rparr>
         ''VAL_000000000000'' = ''500.0''"
proof -
  have run: "apply_gatekeeper example_runtime constant_env sample_fs [''data'', ''sample.xml''] mask_policy
     PolicyEngineConfig_default None None
   = Inr (([''data'', ''sample_sanitized.xml''], [''session_vault.json'']), collided_fs_after)"
    by (simp add: apply_gatekeeper_def parse_sample mask_policy_def PolicyEngineConfig_default_def
      ShufflingConfig_default_def mask_values_def mask_sample_collided apply_tag_shadowing_def
      shadow_sample_collided write_tree_def save_def stem_sample parent_def collided_fs_after_def
      Let_def del: shadow_elem.simps)
  have ld: "load collided_fs_after (Vault_init [''session_vault.json''])
       = Inr \<lparr>path = [''session_vault.json''], entries = collided_vault_entries\<rparr>"
    by (simp add: load_def collided_fs_after_def Vault_init_def load_entries_asdict)
  have rs: "restore \<lparr>path = [''session_vault.json''], entries = collided_vault_entries\<rparr>
         ''VAL_000000000000'' = Some ''500.0''"
    by (simp add: restore_def collided_vault_entries_def)
  have rx: "rehydrate_xml \<lparr>path = [''session_vault.json''], entries = collided_vault_entries\<rparr>
         ''VAL_000000000000'' = ''500.0''"
    by code_simp
  have n1: "node_at sample_doc [0] = Some (leaf ''pressure'' ''123.45'')"
    by (simp add: sample_doc_def)
  have n2: "node_at collided_sanitized [0]
       = Some (Element (Tag None ''metric_alpha'') (Some ''VAL_000000000000'') [] [] None)"
    by (simp add: collided_sanitized_def)
  from run ld rs rx n1 n2 masked_literal_sample show ?thesis
    by simp
qed

text \<open>
  C2 (amended). \<open>restore\<close> of the placeholder that \<open>store\<close> returned yields the stored
  string, for every vault, string and template. After a run of the pipeline in which
  masking is active and the placeholders drawn are pairwise different, the file system
  is the former one with the sanitized document and the vault file written; for every
  element of the input that the masking loop masks, the element at the same place of the
  sanitized document carries a placeholder which \<open>restore\<close>, \<open>rehydrate_value\<close> and
  \<open>rehydrate_xml\<close> (the placeholder followed by the end of the text or by a character
  that is no letter or digit) with the vault loaded from the vault file turn back into
  the trimmed original text.
\<close>

theorem pipeline_roundtrip:
  "(store rnd now v x format_str = Inr (p, v') \<longrightarrow> restore v' p = Some x)
   \<and> (apply_gatekeeper rt env fs xml_path policy config output_dir tag_map = Inr ((sp, vp), fs')
      \<and> (global_masking policy \<or> filter (\<lambda>r. action r = ''mask_value'') (rules policy) \<noteq> [])
      \<and> parse fs xml_path = Inr root
      \<and> node_at root pos = Some n
      \<and> masked_literal (masking config) n = Some lit
      \<and> (\<forall>i j. i < j \<and> j < masked_count (masking config) root
            \<longrightarrow> placeholder_of (fst (env i)) \<noteq> placeholder_of (fst (env j)))
      \<longrightarrow> (\<exists>root' vault_json v2 n' q.
             fs' = fs(sp \<mapsto> XmlFile root', vp \<mapsto> JsonFile vault_json)
             \<and> load fs' (Vault_init vp) = Inr v2
             \<and> node_at root' pos = Some n'
             \<and> elem_text n' = Some q
             \<and> restore v2 q = Some lit
             \<and> rehydrate_value v2 q = lit
             \<and> (\<forall>rest. rest = [] \<or> \<not> isalnum_ascii (hd rest)
                  \<longrightarrow> rehydrate_xml v2 (q @ rest) = lit @ rehydrate_xml v2 rest)))"
proof (intro conjI impI)
  assume "store rnd now v x format_str = Inr (p, v')"
  then show "restore v' p = Some x"
    by (auto simp: store_def restore_def Let_def update_conv' split: sum.splits)
next
  assume h: "apply_gatekeeper rt env fs xml_path policy config output_dir tag_map = Inr ((sp, vp), fs')
      \<and> (global_masking policy \<or> filter (\<lambda>r. action r = ''mask_value'') (rules policy) \<noteq> [])
      \<and> parse fs xml_path = Inr root
      \<and> node_at root pos = Some n
      \<and> masked_literal (masking config) n = Some lit
      \<and> (\<forall>i j. i < j \<and> j < masked_count (masking config) root
            \<longrightarrow> placeholder_of (fst (env i)) \<noteq> placeholder_of (fst (env j)))"
  let ?tm = "case tag_map of None \<Rightarrow> DEFAULT_TAG_MAP | Some m \<Rightarrow> m"
  from h apply_gatekeeper_success [of rt env fs xml_path policy config output_dir tag_map sp vp fs']
  obtain root1 st1 where
    m: "mask_elem (masking config) env root (Vault_init (vault_path config), 0) = Inr (root1, st1)"
    and vp: "vp = vault_path config" and pv: "path (fst st1) = vault_path config"
    and fs': "fs' = (fs(sp \<mapsto> XmlFile (shadow_elem ?tm root1)))
              (vp \<mapsto> JsonFile (JObject (map (\<lambda>(key, entry). (key, asdict entry)) (entries (fst st1)))))"
    by auto
  have cnt: "snd st1 = masked_count (masking config) root"
    using mask_count(1) [OF m] by simp
  from h have at: "node_at root pos = Some n" and ml: "masked_literal (masking config) n = Some lit"
    by simp_all
  from mask_node(1) [OF m at ml]
  obtain j n1 where j: "j < snd st1" "node_at root1 pos = Some n1"
      "elem_text n1 = Some (placeholder_of (fst (env j)))"
      "(\<forall>i. j < i \<and> i < snd st1 \<longrightarrow> placeholder_of (fst (env i)) \<noteq> placeholder_of (fst (env j)))
          \<longrightarrow> map_of (entries (fst st1)) (placeholder_of (fst (env j))) =
                Some \<lparr>masked_value = placeholder_of (fst (env j)), original_value = lit,
                      created_at = snd (env j)\<rparr>"
    by auto
  let ?q = "placeholder_of (fst (env j))"
  let ?v2 = "\<lparr>path = vp, entries = entries (fst st1)\<rparr>"
  have "\<forall>i. j < i \<and> i < snd st1 \<longrightarrow> placeholder_of (fst (env i)) \<noteq> ?q"
    using h cnt by (metis)
  with j(4) have ent: "map_of (entries (fst st1)) ?q =
                Some \<lparr>masked_value = ?q, original_value = lit, created_at = snd (env j)\<rparr>"
    by blast
  have rs: "restore ?v2 ?q = Some lit"
    using ent by (simp add: restore_def)
  have rv: "rehydrate_value ?v2 ?q = lit"
    using rs by (simp add: rehydrate_value_def)
  have ld: "load fs' (Vault_init vp) = Inr ?v2"
    by (simp add: fs' load_def Vault_init_def load_entries_asdict)
  from node_at_shadow [OF j(2), of ?tm] obtain n' where
    n': "node_at (shadow_elem ?tm root1) pos = Some n'" "elem_text n' = Some ?q"
    using j(3) by auto
  have rx: "rehydrate_xml ?v2 (?q @ rest) = lit @ rehydrate_xml ?v2 rest"
    if "rest = [] \<or> \<not> isalnum_ascii (hd rest)" for rest
  proof -
    let ?uid = "take 12 (hex (uuid4 (fst (env j))))"
    have "?uid \<noteq> []"
      using uid_hex(2) [of "uuid4 (fst (env j))"] by auto
    moreover have "list_all isalnum_ascii ?uid"
      using uid_hex(1) [of "uuid4 (fst (env j))"] ishex_alnum by (auto simp: list_all_iff)
    ultimately have "rehydrate_xml ?v2 (''VAL_'' @ ?uid @ rest) =
           (case restore ?v2 (''VAL_'' @ ?uid) of Some original \<Rightarrow> original | None \<Rightarrow> ''VAL_'' @ ?uid)
           @ rehydrate_xml ?v2 rest"
      using that by (rule rehydrate_xml_token)
    then show ?thesis
      using rs by (simp add: placeholder_of_def)
  qed
  from fs' ld n' rs rv rx
  show "\<exists>root' vault_json v2 n' q.
             fs' = fs(sp \<mapsto> XmlFile root', vp \<mapsto> JsonFile vault_json)
             \<and> load fs' (Vault_init vp) = Inr v2
             \<and> node_at root' pos = Some n'
             \<and> elem_text n' = Some q
             \<and> restore v2 q = Some lit
             \<and> rehydrate_value v2 q = lit
             \<and> (\<forall>rest. rest = [] \<or> \<not> isalnum_ascii (hd rest)
                  \<longrightarrow> rehydrate_xml v2 (q @ rest) = lit @ rehydrate_xml v2 rest)"
    by blast
qed

theorem pipeline_roundtrip_witness:
  "store 0 ''2024-01-01T00:00:00+00:00'' (Vault_init [''session_vault.json'']) ''1.5'' default_format
     = Inr (''VAL_000000000000'',
            \<lparr>path = [''session_vault.json''],
              entries = [(''VAL_000000000000'',
                 \<lparr>masked_value = ''VAL_000000000000'', original_value = ''1.5'',
                  created_at = ''2024-01-01T00:00:00+00:00''\<rparr>)]\<rparr>)
   \<and> restore \<lparr>path = [''session_vault.json''],
              entries = [(''VAL_000000000000'',
                 \<lparr>masked_value = ''VAL_000000000000'', original_value = ''1.5'',
                  created_at = ''2024-01-01T00:00:00+00:00''\<rparr>)]\<rparr>
         ''VAL_000000000000'' = Some ''1.5''
   \<and> apply_gatekeeper example_runtime example_env sample_fs [''data'', ''sample.xml''] mask_policy
     PolicyEngineConfig_default None None
   = Inr (([''data'', ''sample_sanitized.xml''], [''session_vault.json'']), sample_fs_after)
   \<and> parse sample_fs [''data'', ''sample.xml''] = Inr sample_doc
   \<and> node_at sample_doc [0] = Some (leaf ''pressure'' ''123.45'')
   \<and> masked_literal MaskingConfig_default (leaf ''pressure'' ''123.45'') = Some ''123.45''
   \<and> (\<exists>root' vault_json v2 n' q.
         sample_fs_after = sample_fs([''data'', ''sample_sanitized.xml''] \<mapsto> XmlFile root',
                                     [''session_vault.json''] \<mapsto> JsonFile vault_json)
         \<and> load sample_fs_after (Vault_init [''session_vault.json'']) = Inr v2
         \<and> node_at root' [0] = Some n'
         \<and> elem_text n' = Some q
         \<and> restore v2 q = Some ''123.45''
         \<and> rehydrate_value v2 q = ''123.45''
         \<and> (\<forall>rest. rest = [] \<or> \<not> isalnum_ascii (hd rest)
              \<longrightarrow> rehydrate_xml v2 (q @ rest) = ''123.45'' @ rehydrate_xml v2 rest))"
proof -
  have st: "store 0 ''2024-01-01T00:00:00+00:00'' (Vault_init [''session_vault.json'']) ''1.5'' default_format
     = Inr (''VAL_000000000000'',
            \<lparr>path = [''session_vault.json''],
              entries = [(''VAL_000000000000'',
                 \<lparr>masked_value = ''VAL_000000000000'', original_value = ''1.5'',
                  created_at = ''2024-01-01T00:00:00+00:00''\<rparr>)]\<rparr>)"
    by (simp add: store_default uid_zero Vault_init_def)
  have rs: "restore \<lparr>path = [''session_vault.json''],
              entries = [(''VAL_000000000000'',
                 \<lparr>masked_value = ''VAL_000000000000'', original_value = ''1.5'',
                  created_at = ''2024-01-01T00:00:00+00:00''\<rparr>)]\<rparr>
         ''VAL_000000000000'' = Some ''1.5''"
    by (rule mp [OF conjunct1 [OF pipeline_roundtrip] st])
  have act: "global_masking mask_policy
             \<or> filter (\<lambda>r. action r = ''mask_value'') (rules mask_policy) \<noteq> []"
    by (simp add: mask_policy_def)
  have n1: "node_at sample_doc [0] = Some (leaf ''pressure'' ''123.45'')"
    by (simp add: sample_doc_def)
  have mc: "masking PolicyEngineConfig_default = MaskingConfig_default"
    by (simp add: PolicyEngineConfig_default_def)
  have hyp: "apply_gatekeeper example_runtime example_env sample_fs [''data'', ''sample.xml''] mask_policy
       PolicyEngineConfig_default None None
       = Inr (([''data'', ''sample_sanitized.xml''], [''session_vault.json'']), sample_fs_after)
     \<and> (global_masking mask_policy
             \<or> filter (\<lambda>r. action r = ''mask_value'') (rules mask_policy) \<noteq> [])
     \<and> parse sample_fs [''data'', ''sample.xml''] = Inr sample_doc
     \<and> node_at sample_doc [0] = Some (leaf ''pressure'' ''123.45'')
     \<and> masked_literal (masking PolicyEngineConfig_default) (leaf ''pressure'' ''123.45'') = Some ''123.45''
     \<and> (\<forall>i j. i < j \<and> j < masked_count (masking PolicyEngineConfig_default) sample_doc
            \<longrightarrow> placeholder_of (fst (example_env i)) \<noteq> placeholder_of (fst (example_env j)))"
    unfolding mc
    by (intro conjI run_sample act parse_sample n1 masked_literal_sample example_env_distinct)
  have "\<exists>root' vault_json v2 n' q.
         sample_fs_after = sample_fs([''data'', ''sample_sanitized.xml''] \<mapsto> XmlFile root',
                                     [''session_vault.json''] \<mapsto> JsonFile vault_json)
         \<and> load sample_fs_after (Vault_init [''session_vault.json'']) = Inr v2
         \<and> node_at root' [0] = Some n'
         \<and> elem_text n' = Some q
         \<and> restore v2 q = Some ''123.45''
         \<and> rehydrate_value v2 q = ''123.45''
         \<and> (\<forall>rest. rest = [] \<or> \<not> isalnum_ascii (hd rest)
              \<longrightarrow> rehydrate_xml v2 (q @ rest) = ''123.45'' @ rehydrate_xml v2 rest)"
    by (rule mp [OF conjunct2 [OF pipeline_roundtrip] hyp])
  then show ?thesis
    by (intro conjI st rs run_sample parse_sample n1 masked_literal_sample)
qed

lemma json_keys_saved:
  "json_keys (fs(vp \<mapsto> JsonFile (JObject (map (\<lambda>(key, entry). (key, asdict entry)) es)))) vp
     = dom (map_of es)"
  by (force simp: json_keys_def dom_map_of_conv_image_fst image_iff)

lemma apply_gatekeeper_eval:
  assumes root: "parse fs xml_path = Inr root"
    and m: "if global_masking policy \<or> filter (\<lambda>r. action r = ''mask_value'') (rules policy) \<noteq> []
        then mask_elem (masking config) env root (Vault_init (vault_path config), 0) = Inr (root1, v1)
        else (root1, v1) = (root, (Vault_init (vault_path config), 0))"
    and ns: "\<not> (enabled (shuffling config)
            \<and> filter (\<lambda>r. action r = ''shuffle_siblings'') (rules policy) \<noteq> [])"
  shows "apply_gatekeeper rt env fs xml_path policy config output_dir tag_map =
     Inr (((case output_dir of None \<Rightarrow> parent xml_path
                             | Some d \<Rightarrow> if d \<noteq> [] then d else parent xml_path)
             @ [stem xml_path @ ''_sanitized.xml''], vault_path config),
          (fs((case output_dir of None \<Rightarrow> parent xml_path
                             | Some d \<Rightarrow> if d \<noteq> [] then d else parent xml_path)
             @ [stem xml_path @ ''_sanitized.xml'']
               \<mapsto> XmlFile (shadow_elem (case tag_map of None \<Rightarrow> DEFAULT_TAG_MAP | Some m \<Rightarrow> m) root1)))
            (path (fst v1) \<mapsto>
               JsonFile (JObject (map (\<lambda>(key, entry). (key, asdict entry)) (entries (fst v1))))))"
proof (cases "global_masking policy \<or> filter (\<lambda>r. action r = ''mask_value'') (rules policy) \<noteq> []")
  case True
  with m have me: "mask_elem (masking config) env root (Vault_init (vault_path config), 0) = Inr (root1, v1)"
    by simp
  have mv: "mask_values env (PyElementTree root) (masking config) (Vault_init (vault_path config), 0)
              = Inr (PyElementTree root1, (fst v1, snd v1))"
    by (simp add: mask_values_def me)
  show ?thesis
    unfolding apply_gatekeeper_def Let_def root sum.case if_P [OF True] mv prod.case
      if_not_P [OF ns] apply_tag_shadowing_def treeish.case write_tree_def save_def fst_conv
    by simp
next
  case False
  with m have eq: "root1 = root" "v1 = (Vault_init (vault_path config), 0)"
    by simp_all
  show ?thesis
    unfolding apply_gatekeeper_def Let_def root sum.case if_not_P [OF False] prod.case
      if_not_P [OF ns] apply_tag_shadowing_def treeish.case write_tree_def save_def fst_conv eq
    by simp
qed

text \<open>
  C10 (as stated, refuted). Two runs on the same document in which the operating system
  returns the same random bytes and the clock the same time stamps: the vault file after
  the second run is the vault file after the first, with every entry of the first run
  in it.
\<close>

theorem vault_entries_persist_counterexample:
  "apply_gatekeeper example_runtime example_env sample_fs [''data'', ''sample.xml''] mask_policy
     PolicyEngineConfig_default None None
   = Inr (([''data'', ''sample_sanitized.xml''], [''session_vault.json'']), sample_fs_after)
   \<and> apply_gatekeeper example_runtime example_env sample_fs_after [''data'', ''sample.xml''] mask_policy
     PolicyEngineConfig_default None None
   = Inr (([''data'', ''sample_sanitized.xml''], [''session_vault.json'']), sample_fs_after)
   \<and> json_keys sample_fs_after [''session_vault.json''] = {''VAL_000000000000'', ''VAL_000000000001''}
   \<and> ''VAL_000000000000'' \<in> json_keys sample_fs_after [''session_vault.json'']"
  by (simp add: run_sample run_sample_again sample_keys)

text \<open>
  C10 (amended). A run that returns has built its vault from the empty vault at the
  configured path and has written it over the file at that path: the file after the
  run is the same for every file system that holds the same input document, whatever
  the vault file held before; it is the JSON object of the entries stored in this run,
  and its keys are placeholders drawn by this run. Hence a key of the former vault file
  is not a key of the new one unless this run has drawn that placeholder again.
\<close>

theorem vault_file_after_run:
  assumes run: "apply_gatekeeper rt env fs xml_path policy config output_dir tag_map = Inr ((sp, vp), fs')"
  shows "vp = vault_path config
     \<and> (\<forall>fs2. parse fs2 xml_path = parse fs xml_path \<longrightarrow>
           (\<exists>fs2'. apply_gatekeeper rt env fs2 xml_path policy config output_dir tag_map
                      = Inr ((sp, vp), fs2')
                  \<and> fs2' vp = fs' vp))
     \<and> (\<exists>root es.
           parse fs xml_path = Inr root
           \<and> fs' vp = Some (JsonFile (JObject (map (\<lambda>(key, entry). (key, asdict entry)) es)))
           \<and> json_keys fs' vp
               \<subseteq> {placeholder_of (fst (env j)) | j. j < masked_count (masking config) root}
           \<and> (\<forall>p \<in> json_keys fs vp.
                 (\<forall>j. j < masked_count (masking config) root \<longrightarrow> p \<noteq> placeholder_of (fst (env j)))
                 \<longrightarrow> p \<notin> json_keys fs' vp))"
proof -
  let ?tm = "case tag_map of None \<Rightarrow> DEFAULT_TAG_MAP | Some m \<Rightarrow> m"
  let ?active = "global_masking policy \<or> filter (\<lambda>r. action r = ''mask_value'') (rules policy) \<noteq> []"
  let ?v0 = "(Vault_init (vault_path config), 0 :: nat)"
  from apply_gatekeeper_success [OF run]
  obtain root root1 v1 where all:
    "parse fs xml_path = Inr root
     \<and> (if ?active
        then mask_elem (masking config) env root ?v0 = Inr (root1, v1)
        else (root1, v1) = (root, ?v0))
     \<and> \<not> (enabled (shuffling config)
            \<and> filter (\<lambda>r. action r = ''shuffle_siblings'') (rules policy) \<noteq> [])
     \<and> vp = vault_path config
     \<and> path (fst v1) = vault_path config
     \<and> fs' = (fs(sp \<mapsto> XmlFile (shadow_elem ?tm root1)))
              (vp \<mapsto> JsonFile (JObject (map (\<lambda>(key, entry). (key, asdict entry)) (entries (fst v1)))))"
    by (elim exE) (rule that, assumption)
  then have root: "parse fs xml_path = Inr root"
    and m: "if ?active then mask_elem (masking config) env root ?v0 = Inr (root1, v1)
            else (root1, v1) = (root, ?v0)"
    and ns: "\<not> (enabled (shuffling config)
            \<and> filter (\<lambda>r. action r = ''shuffle_siblings'') (rules policy) \<noteq> [])"
    and vp: "vp = vault_path config" and pv: "path (fst v1) = vault_path config"
    and fs': "fs' = (fs(sp \<mapsto> XmlFile (shadow_elem ?tm root1)))
              (vp \<mapsto> JsonFile (JObject (map (\<lambda>(key, entry). (key, asdict entry)) (entries (fst v1)))))"
    by simp_all
  let ?json = "JsonFile (JObject (map (\<lambda>(key, entry). (key, asdict entry)) (entries (fst v1))))"
  have vfile: "fs' vp = Some ?json"
    by (simp add: fs')
  have keys: "json_keys fs' vp = dom (map_of (entries (fst v1)))"
    unfolding fs' by (rule json_keys_saved)
  have sub: "dom (map_of (entries (fst v1)))
               \<subseteq> {placeholder_of (fst (env j)) | j. j < masked_count (masking config) root}"
  proof (cases ?active)
    case True
    with m have me: "mask_elem (masking config) env root ?v0 = Inr (root1, v1)"
      by simp
    have "snd v1 = masked_count (masking config) root"
      using mask_count(1) [OF me] by simp
    moreover have "dom (map_of (entries (fst v1))) =
        {placeholder_of (fst (env j)) | j. 0 \<le> j \<and> j < snd v1}"
      using mask_between(1) [OF me] by (simp add: stores_between_def Vault_init_def)
    ultimately show ?thesis by auto
  next
    case False
    with m have "entries (fst v1) = []"
      by (auto simp: Vault_init_def)
    then show ?thesis by simp
  qed
  have other: "\<exists>fs2'. apply_gatekeeper rt env fs2 xml_path policy config output_dir tag_map
                      = Inr ((sp, vp), fs2')
                  \<and> fs2' vp = fs' vp"
    if same: "parse fs2 xml_path = parse fs xml_path" for fs2
  proof -
    let ?sp0 = "(case output_dir of None \<Rightarrow> parent xml_path
                             | Some d \<Rightarrow> if d \<noteq> [] then d else parent xml_path)
             @ [stem xml_path @ ''_sanitized.xml'']"
    have "apply_gatekeeper rt env fs xml_path policy config output_dir tag_map =
       Inr ((?sp0, vault_path config),
            (fs(?sp0 \<mapsto> XmlFile (shadow_elem ?tm root1)))(path (fst v1) \<mapsto> ?json))"
      using root m ns by (rule apply_gatekeeper_eval)
    with run have sp: "sp = ?sp0"
      by simp
    have root2: "parse fs2 xml_path = Inr root"
      using same root by simp
    have "apply_gatekeeper rt env fs2 xml_path policy config output_dir tag_map =
       Inr ((?sp0, vault_path config),
            (fs2(?sp0 \<mapsto> XmlFile (shadow_elem ?tm root1)))(path (fst v1) \<mapsto> ?json))"
      using root2 m ns by (rule apply_gatekeeper_eval)
    then have "apply_gatekeeper rt env fs2 xml_path policy config output_dir tag_map =
       Inr ((sp, vp), (fs2(?sp0 \<mapsto> XmlFile (shadow_elem ?tm root1)))(vp \<mapsto> ?json))"
      by (simp only: sp vp pv)
    moreover have "((fs2(?sp0 \<mapsto> XmlFile (shadow_elem ?tm root1)))(vp \<mapsto> ?json)) vp = fs' vp"
      by (simp add: vfile)
    ultimately show ?thesis by blast
  qed
  have absent: "p \<notin> json_keys fs' vp"
    if "\<forall>j. j < masked_count (masking config) root \<longrightarrow> p \<noteq> placeholder_of (fst (env j))" for p
    using that sub keys by blast
  have inner: "parse fs xml_path = Inr root
           \<and> fs' vp = Some (JsonFile (JObject (map (\<lambda>(key, entry). (key, asdict entry)) (entries (fst v1)))))
           \<and> json_keys fs' vp
               \<subseteq> {placeholder_of (fst (env j)) | j. j < masked_count (masking config) root}
           \<and> (\<forall>p \<in> json_keys fs vp.
                 (\<forall>j. j < masked_count (masking config) root \<longrightarrow> p \<noteq> placeholder_of (fst (env j)))
                 \<longrightarrow> p \<notin> json_keys fs' vp)"
    using root vfile sub keys absent by simp
  show ?thesis
  proof (intro conjI allI impI)
    show "vp = vault_path config" by (rule vp)
  next
    fix fs2 assume "parse fs2 xml_path = parse fs xml_path"
    then show "\<exists>fs2'. apply_gatekeeper rt env fs2 xml_path policy config output_dir tag_map
                      = Inr ((sp, vp), fs2')
                  \<and> fs2' vp = fs' vp"
      by (rule other)
  next
    from inner show "\<exists>root es.
           parse fs xml_path = Inr root
           \<and> fs' vp = Some (JsonFile (JObject (map (\<lambda>(key, entry). (key, asdict entry)) es)))
           \<and> json_keys fs' vp
               \<subseteq> {placeholder_of (fst (env j)) | j. j < masked_count (masking config) root}
           \<and> (\<forall>p \<in> json_keys fs vp.
                 (\<forall>j. j < masked_count (masking config) root \<longrightarrow> p \<noteq> placeholder_of (fst (env j)))
                 \<longrightarrow> p \<notin> json_keys fs' vp)"
      by blast
  qed
qed

lemma run_stale:
  "apply_gatekeeper example_runtime example_env stale_fs [''data'', ''sample.xml''] mask_policy
     PolicyEngineConfig_default None None
   = Inr (([''data'', ''sample_sanitized.xml''], [''session_vault.json'']), sample_fs_after)"
proof -
  have p: "parse stale_fs [''data'', ''sample.xml''] = Inr sample_doc"
    by (simp add: parse_def stale_fs_def sample_fs_def)
  have "stale_fs([''data'', ''sample_sanitized.xml''] \<mapsto> XmlFile sample_sanitized,
               [''session_vault.json''] \<mapsto>
                 JsonFile (JObject (map (\<lambda>(key, entry). (key, asdict entry)) sample_vault_entries)))
        = sample_fs_after"
    by (auto simp: sample_fs_after_def stale_fs_def)
  then show ?thesis
    by (simp add: apply_gatekeeper_def p mask_policy_def PolicyEngineConfig_default_def
      ShufflingConfig_default_def mask_values_def mask_sample apply_tag_shadowing_def shadow_sample
      write_tree_def save_def stem_sample parent_def Let_def
      del: shadow_elem.simps)
qed

theorem vault_file_after_run_witness:
  "apply_gatekeeper example_runtime example_env stale_fs [''data'', ''sample.xml''] mask_policy
     PolicyEngineConfig_default None None
   = Inr (([''data'', ''sample_sanitized.xml''], [''session_vault.json'']), sample_fs_after)
   \<and> [''session_vault.json''] = vault_path PolicyEngineConfig_default
   \<and> (\<exists>fs2'. apply_gatekeeper example_runtime example_env sample_fs [''data'', ''sample.xml'']
                 mask_policy PolicyEngineConfig_default None None
               = Inr (([''data'', ''sample_sanitized.xml''], [''session_vault.json'']), fs2')
             \<and> fs2' [''session_vault.json''] = sample_fs_after [''session_vault.json''])
   \<and> ''VAL_ffffffffffff'' \<in> json_keys stale_fs [''session_vault.json'']
   \<and> ''VAL_ffffffffffff'' \<notin> json_keys sample_fs_after [''session_vault.json'']"
proof -
  note t = vault_file_after_run [OF run_stale]
  have same: "parse sample_fs [''data'', ''sample.xml''] = parse stale_fs [''data'', ''sample.xml'']"
    by (simp add: parse_def stale_fs_def sample_fs_def)
  have old: "''VAL_ffffffffffff'' \<in> json_keys stale_fs [''session_vault.json'']"
    by (simp add: json_keys_def stale_fs_def asdict_def)
  from t obtain root where
    r: "parse stale_fs [''data'', ''sample.xml''] = Inr root"
    and ab: "\<forall>p \<in> json_keys stale_fs [''session_vault.json''].
                 (\<forall>j. j < masked_count (masking PolicyEngineConfig_default) root
                    \<longrightarrow> p \<noteq> placeholder_of (fst (example_env j)))
                 \<longrightarrow> p \<notin> json_keys sample_fs_after [''session_vault.json'']"
    by blast
  have root: "root = sample_doc"
    using r by (simp add: parse_def stale_fs_def sample_fs_def)
  have cnt: "masked_count (masking PolicyEngineConfig_default) root = 2"
    using masked_count_sample by (simp add: root PolicyEngineConfig_default_def)
  have fresh: "\<forall>j. j < masked_count (masking PolicyEngineConfig_default) root
                 \<longrightarrow> ''VAL_ffffffffffff'' \<noteq> placeholder_of (fst (example_env j))"
  proof (intro allI impI)
    fix j assume "j < masked_count (masking PolicyEngineConfig_default) root"
    then have "j = 0 \<or> j = Suc 0"
      unfolding cnt by auto
    then show "''VAL_ffffffffffff'' \<noteq> placeholder_of (fst (example_env j))"
      by (auto simp: example_env_0 example_env_1)
  qed
  from ab old fresh have gone: "''VAL_ffffffffffff'' \<notin> json_keys sample_fs_after [''session_vault.json'']"
    by blast
  from t same have ex: "\<exists>fs2'. apply_gatekeeper example_runtime example_env sample_fs [''data'', ''sample.xml'']
                 mask_policy PolicyEngineConfig_default None None
               = Inr (([''data'', ''sample_sanitized.xml''], [''session_vault.json'']), fs2')
             \<and> fs2' [''session_vault.json''] = sample_fs_after [''session_vault.json'']"
    by blast
  from t have vp: "[''session_vault.json''] = vault_path PolicyEngineConfig_default"
    by blast
  show ?thesis
    by (intro conjI run_stale vp ex old gone)
qed

section \<open>Properties of the shuffling stage\<close>

lemma mset_shuffle_from:
  "m < length x \<Longrightarrow> mset (fst (shuffle_from m g x)) = mset x"
proof (induction m arbitrary: g x)
  case 0
  then show ?case by simp
next
  case (Suc m)
  have "g 0 mod (Suc m + 1) < Suc m + 1"
    by simp
  with Suc.prems have j: "g 0 mod (Suc m + 1) < length x"
    by linarith
  have "mset (x[Suc m := x ! (g 0 mod (Suc m + 1)), g 0 mod (Suc m + 1) := x ! Suc m]) = mset x"
    using Suc.prems j by (simp add: mset_swap)
  moreover have "m < length (x[Suc m := x ! (g 0 mod (Suc m + 1)), g 0 mod (Suc m + 1) := x ! Suc m])"
    using Suc.prems by simp
  ultimately show ?case
    using Suc.IH by (simp add: randbelow_def Let_def)
qed

lemma mset_shuffle: "mset (fst (shuffle g x)) = mset x"
proof (cases "x = []")
  case True
  then show ?thesis by (simp add: shuffle_def)
next
  case False
  then show ?thesis by (simp add: shuffle_def mset_shuffle_from)
qed

lemma mset_shuffle_children: "image_mset snd (mset (fst (shuffle_children g cs))) = mset cs"
proof -
  have "image_mset snd (mset (zip [0..<length cs] cs)) = mset cs"
    by (simp flip: mset_map)
  then show ?thesis
    by (simp add: shuffle_children_def mset_shuffle)
qed

lemma unordered_shuffle:
  "unordered (fst (shuffle_elem r f e g)) = unordered e"
  "mset (map unordered (fst (shuffle_elems r f es g))) = mset (map unordered es)"
proof (induction r f e g and r f es g rule: shuffle_elem_shuffle_elems.induct)
  case (1 resume should_shuffle tg tx ats cs tlx g)
  show ?case
  proof (cases "(case tg of NonStr \<Rightarrow> False | Tag ns local \<Rightarrow> should_shuffle local) \<and> length cs \<ge> 2")
    case True
    let ?numbered = "fst (shuffle_children g cs)"
    let ?k = "resume (map fst ?numbered)"
    let ?walked = "shuffle_elems resume should_shuffle (map snd (drop ?k ?numbered)) (snd (shuffle_children g cs))"
    have eq: "fst (shuffle_elem resume should_shuffle (Element tg tx ats cs tlx) g)
                = Element tg tx ats (map snd (take ?k ?numbered) @ fst ?walked) tlx"
      by (simp only: shuffle_elem.simps if_P [OF True] Let_def fst_conv)
    have ih: "mset (map unordered (fst ?walked)) = mset (map unordered (map snd (drop ?k ?numbered)))"
      using "1.IH"(1) [OF True refl refl] .
    have "mset (map unordered (map snd (take ?k ?numbered) @ fst ?walked))
            = mset (map unordered (map snd (take ?k ?numbered)))
              + mset (map unordered (map snd (drop ?k ?numbered)))"
      using ih by simp
    also have "\<dots> = mset (map unordered (map snd (take ?k ?numbered @ drop ?k ?numbered)))"
      by (simp only: map_append mset_append)
    also have "\<dots> = image_mset unordered (image_mset snd (mset ?numbered))"
      by (simp add: multiset.map_comp)
    also have "\<dots> = mset (map unordered cs)"
      by (simp only: mset_shuffle_children mset_map)
    finally have ms: "mset (map unordered (map snd (take ?k ?numbered) @ fst ?walked))
                       = mset (map unordered cs)" .
    show ?thesis
      by (simp only: eq unordered.simps ms)
  next
    case False
    have eq: "fst (shuffle_elem resume should_shuffle (Element tg tx ats cs tlx) g)
                = Element tg tx ats (fst (shuffle_elems resume should_shuffle cs g)) tlx"
      by (simp only: shuffle_elem.simps if_not_P [OF False] Let_def fst_conv)
    show ?thesis
      using "1.IH"(2) [OF False] by (simp only: eq unordered.simps)
  qed
next
  case (2 resume should_shuffle g)
  then show ?case by simp
next
  case (3 resume should_shuffle c cs g)
  then show ?case by (simp add: Let_def)
qed

text \<open>
  C3. Where the shuffling stage reorders the children of an element (lines 95 to 100),
  the new list of children is the old one as a multiset: every child is there as often
  as before, with its tag, attributes, text and descendants. For the stage as a whole,
  the tree it leaves is the tree it was given up to the order of siblings.
\<close>

theorem shuffle_preserves_children:
  "mset (map snd (fst (shuffle_children g cs))) = mset cs
   \<and> unordered (fst (shuffle_elem resume should_shuffle e g)) = unordered e"
  by (simp add: mset_shuffle_children unordered_shuffle)

text \<open>
  C8. With a seed in the configuration, the text that \<open>shuffle_siblings\<close> returns for a
  tree, a configuration and a rule list does not depend on the entropy of the operating
  system: two runs return the same text.
\<close>

theorem shuffle_siblings_deterministic:
  assumes "seed shuffling_config = Some a"
  shows "shuffle_siblings (rt\<lparr>os_seed := sa\<rparr>) tree shuffling_config rs
         = shuffle_siblings (rt\<lparr>os_seed := sb\<rparr>) tree shuffling_config rs"
proof -
  have "shuffle_root (rt\<lparr>os_seed := sa\<rparr>) root shuffling_config rs
        = shuffle_root (rt\<lparr>os_seed := sb\<rparr>) root shuffling_config rs" for root
    using assms by (simp add: shuffle_root_def Random_def)
  then show ?thesis
    by (simp add: shuffle_siblings_def split: treeish.splits sum.splits)
qed

lemma shuffle_sample_seed_2: "shuffle_siblings (example_runtime\<lparr>os_seed := 1\<rparr>) (PyElementTree sample_doc)
           (ShufflingConfig_default\<lparr>seed := Some 2\<rparr>) (Some (rules shuffle_policy))
       = Inr ''<root><pressure>500.0</pressure><pressure>123.45</pressure></root>''"
  by code_simp

theorem shuffle_siblings_deterministic_witness:
  "seed (ShufflingConfig_default\<lparr>seed := Some 2\<rparr>) = Some 2
   \<and> shuffle_siblings (example_runtime\<lparr>os_seed := 5\<rparr>) (PyElementTree sample_doc)
         (ShufflingConfig_default\<lparr>seed := Some 2\<rparr>) (Some (rules shuffle_policy))
       = Inr ''<root><pressure>500.0</pressure><pressure>123.45</pressure></root>''"
proof -
  have h: "seed (ShufflingConfig_default\<lparr>seed := Some 2\<rparr>) = Some 2"
    by simp
  show ?thesis
    using h shuffle_siblings_deterministic [where shuffling_config = "ShufflingConfig_default\<lparr>seed := Some 2\<rparr>"
        and a = 2 and rt = example_runtime and sa = 5 and sb = 1
        and tree = "PyElementTree sample_doc" and rs = "Some (rules shuffle_policy)", OF h]
      shuffle_sample_seed_2
    by simp
qed


section \<open>Properties of rehydration\<close>

lemma take4_VAL: "take 4 s = ''VAL_'' \<longleftrightarrow> (\<exists>t. s = ''VAL_'' @ t)"
proof
  assume h: "take 4 s = ''VAL_''"
  have "s = take 4 s @ drop 4 s" by simp
  then have "s = ''VAL_'' @ drop 4 s" unfolding h .
  then show "\<exists>t. s = ''VAL_'' @ t" ..
next
  assume "\<exists>t. s = ''VAL_'' @ t"
  then show "take 4 s = ''VAL_''" by auto
qed

lemma rehydrate_xml_tok:
  assumes "takeWhile isalnum_ascii t \<noteq> []"
  shows "rehydrate_xml v (''VAL_'' @ t) =
           (case restore v (''VAL_'' @ takeWhile isalnum_ascii t) of
              Some original \<Rightarrow> original | None \<Rightarrow> ''VAL_'' @ takeWhile isalnum_ascii t)
           @ rehydrate_xml v (dropWhile isalnum_ascii t)"
proof -
  have "rehydrate_xml v (CHR ''V'' # (''AL_'' @ t)) =
           (case restore v (''VAL_'' @ takeWhile isalnum_ascii t) of
              Some original \<Rightarrow> original | None \<Rightarrow> ''VAL_'' @ takeWhile isalnum_ascii t)
           @ rehydrate_xml v (dropWhile isalnum_ascii t)"
    by (subst rehydrate_xml.simps) (simp add: assms Let_def split: option.splits)
  then show ?thesis by simp
qed

lemma rehydrate_xml_copy:
  assumes "\<not> (\<exists>t. c # cs = ''VAL_'' @ t \<and> takeWhile isalnum_ascii t \<noteq> [])"
  shows "rehydrate_xml v (c # cs) = c # rehydrate_xml v cs"
proof -
  have "\<not> (take 4 (c # cs) = ''VAL_'' \<and> takeWhile isalnum_ascii (drop 3 cs) \<noteq> [])"
  proof
    assume h: "take 4 (c # cs) = ''VAL_'' \<and> takeWhile isalnum_ascii (drop 3 cs) \<noteq> []"
    then obtain t where t: "c # cs = ''VAL_'' @ t"
      using take4_VAL [of "c # cs"] by blast
    then have "drop 3 cs = t" by auto
    with h t assms show False by blast
  qed
  then show ?thesis
    by (subst rehydrate_xml.simps) (simp only: if_False)
qed


lemma rehydrate_xml_no_V:
  "CHR ''V'' \<notin> set r \<Longrightarrow> rehydrate_xml v (r @ t) = r @ rehydrate_xml v t"
proof (induction r)
  case Nil
  then show ?case by simp
next
  case (Cons c r)
  have "\<not> (\<exists>u. c # (r @ t) = ''VAL_'' @ u \<and> takeWhile isalnum_ascii u \<noteq> [])"
    using Cons.prems by auto
  then have "rehydrate_xml v (c # (r @ t)) = c # rehydrate_xml v (r @ t)"
    by (rule rehydrate_xml_copy)
  with Cons show ?case by simp
qed

lemma restore_original:
  assumes "restore v m = Some original"
  shows "\<exists>e \<in> snd ` set (entries v). original = original_value e"
proof -
  from assms obtain e where e: "map_of (entries v) m = Some e" "original = original_value e"
    by (auto simp: restore_def split: option.splits)
  from map_of_SomeD [OF e(1)] have "e \<in> snd ` set (entries v)"
    by force
  with e(2) show ?thesis by blast
qed

lemma rehydrate_xml_head:
  assumes safe: "\<forall>e \<in> snd ` set (entries v).
                   original_value e \<noteq> [] \<and> set (original_value e) \<inter> set ''VAL_'' = {}"
    and out: "rehydrate_xml v s = a # out"
    and a: "a \<in> set ''AL_''"
  shows "\<exists>s'. s = a # s' \<and> out = rehydrate_xml v s'"
proof (cases s)
  case Nil
  with out show ?thesis by simp
next
  case (Cons c cs)
  show ?thesis
  proof (cases "\<exists>t. c # cs = ''VAL_'' @ t \<and> takeWhile isalnum_ascii t \<noteq> []")
    case True
    then obtain t where t: "c # cs = ''VAL_'' @ t" "takeWhile isalnum_ascii t \<noteq> []"
      by blast
    let ?m = "''VAL_'' @ takeWhile isalnum_ascii t"
    have r: "rehydrate_xml v s =
           (case restore v ?m of Some original \<Rightarrow> original | None \<Rightarrow> ?m)
           @ rehydrate_xml v (dropWhile isalnum_ascii t)"
      unfolding Cons t(1) using t(2) by (rule rehydrate_xml_tok)
    show ?thesis
    proof (cases "restore v ?m")
      case None
      with r out have "a = CHR ''V''" by simp
      with a show ?thesis by simp
    next
      case (Some original)
      from restore_original [OF Some] safe
      have o: "original \<noteq> []" "set original \<inter> set ''VAL_'' = {}"
        by auto
      from r out Some have "original @ rehydrate_xml v (dropWhile isalnum_ascii t) = a # out"
        by simp
      with o(1) have "hd original = a"
        by (cases original) auto
      with o(1) have "a \<in> set original"
        using hd_in_set by blast
      with o(2) a show ?thesis by auto
    qed
  next
    case False
    then have "rehydrate_xml v (c # cs) = c # rehydrate_xml v cs"
      by (rule rehydrate_xml_copy)
    with out Cons show ?thesis by simp
  qed
qed

lemma rehydrate_xml_alnum_head:
  assumes "takeWhile isalnum_ascii (rehydrate_xml v s) \<noteq> []"
  shows "takeWhile isalnum_ascii s \<noteq> []"
proof (cases s)
  case Nil
  with assms show ?thesis by simp
next
  case (Cons c cs)
  show ?thesis
  proof (cases "\<exists>t. c # cs = ''VAL_'' @ t \<and> takeWhile isalnum_ascii t \<noteq> []")
    case True
    then have "c = CHR ''V''" by auto
    then show ?thesis
      by (simp add: Cons isalnum_ascii_def)
  next
    case False
    then have "rehydrate_xml v (c # cs) = c # rehydrate_xml v cs"
      by (rule rehydrate_xml_copy)
    with assms Cons show ?thesis
      by (auto split: if_splits)
  qed
qed

lemma rehydrate_xml_no_new_token:
  assumes safe: "\<forall>e \<in> snd ` set (entries v).
                   original_value e \<noteq> [] \<and> set (original_value e) \<inter> set ''VAL_'' = {}"
    and no: "\<not> (\<exists>t. c # cs = ''VAL_'' @ t \<and> takeWhile isalnum_ascii t \<noteq> [])"
  shows "\<not> (\<exists>t. c # rehydrate_xml v cs = ''VAL_'' @ t \<and> takeWhile isalnum_ascii t \<noteq> [])"
proof
  assume "\<exists>t. c # rehydrate_xml v cs = ''VAL_'' @ t \<and> takeWhile isalnum_ascii t \<noteq> []"
  then obtain t where t: "c # rehydrate_xml v cs = ''VAL_'' @ t" "takeWhile isalnum_ascii t \<noteq> []"
    by blast
  from t(1) have c: "c = CHR ''V''" and o0: "rehydrate_xml v cs = CHR ''A'' # (''L_'' @ t)"
    by simp_all
  from rehydrate_xml_head [OF safe o0] obtain s1 where
    s1: "cs = CHR ''A'' # s1" "''L_'' @ t = rehydrate_xml v s1"
    by auto
  have o1: "rehydrate_xml v s1 = CHR ''L'' # (''_'' @ t)"
    using s1(2) by simp
  from rehydrate_xml_head [OF safe o1] obtain s2 where
    s2: "s1 = CHR ''L'' # s2" "''_'' @ t = rehydrate_xml v s2"
    by auto
  have o2: "rehydrate_xml v s2 = CHR ''_'' # t"
    using s2(2) by simp
  from rehydrate_xml_head [OF safe o2] obtain s3 where
    s3: "s2 = CHR ''_'' # s3" "t = rehydrate_xml v s3"
    by auto
  have "takeWhile isalnum_ascii s3 \<noteq> []"
    using t(2) s3(2) rehydrate_xml_alnum_head by blast
  moreover have "c # cs = ''VAL_'' @ s3"
    by (simp add: c s1(1) s2(1) s3(1))
  ultimately show False
    using no by blast
qed


lemma rehydrate_xml_idem:
  assumes safe: "\<forall>e \<in> snd ` set (entries v).
                   original_value e \<noteq> [] \<and> set (original_value e) \<inter> set ''VAL_'' = {}"
  shows "rehydrate_xml v (rehydrate_xml v s) = rehydrate_xml v s"
proof (induction s rule: length_induct)
  case (1 s)
  show ?case
  proof (cases s)
    case Nil
    then show ?thesis by simp
  next
    case (Cons c cs)
    show ?thesis
    proof (cases "\<exists>t. c # cs = ''VAL_'' @ t \<and> takeWhile isalnum_ascii t \<noteq> []")
      case True
      then obtain t where t: "c # cs = ''VAL_'' @ t" "takeWhile isalnum_ascii t \<noteq> []"
        by blast
      let ?tok = "takeWhile isalnum_ascii t"
      let ?rest = "dropWhile isalnum_ascii t"
      let ?m = "''VAL_'' @ ?tok"
      have r: "rehydrate_xml v s =
           (case restore v ?m of Some original \<Rightarrow> original | None \<Rightarrow> ?m)
           @ rehydrate_xml v ?rest"
        unfolding Cons t(1) using t(2) by (rule rehydrate_xml_tok)
      have "length ?rest \<le> length t"
        by (rule length_dropWhile_le)
      moreover have "length s = 4 + length t"
        using t(1) Cons by simp
      ultimately have "length ?rest < length s"
        by simp
      with "1.IH" have ih: "rehydrate_xml v (rehydrate_xml v ?rest) = rehydrate_xml v ?rest"
        by blast
      show ?thesis
      proof (cases "restore v ?m")
        case (Some original)
        from restore_original [OF Some] safe
        have "set original \<inter> set ''VAL_'' = {}"
          by auto
        then have "CHR ''V'' \<notin> set original"
          by auto
        then have "rehydrate_xml v (original @ rehydrate_xml v ?rest)
                     = original @ rehydrate_xml v (rehydrate_xml v ?rest)"
          by (rule rehydrate_xml_no_V)
        moreover have "rehydrate_xml v s = original @ rehydrate_xml v ?rest"
          using r unfolding Some option.case .
        ultimately show ?thesis
          by (simp only: ih)
      next
        case None
        have stop: "takeWhile isalnum_ascii (rehydrate_xml v ?rest) = []"
        proof (rule ccontr)
          assume "takeWhile isalnum_ascii (rehydrate_xml v ?rest) \<noteq> []"
          then have "takeWhile isalnum_ascii ?rest \<noteq> []"
            by (rule rehydrate_xml_alnum_head)
          then have "?rest \<noteq> [] \<and> isalnum_ascii (hd ?rest)"
            by (cases ?rest) (auto split: if_splits)
          then show False
            using hd_dropWhile [of isalnum_ascii t] by blast
        qed
        have all: "\<forall>x \<in> set ?tok. isalnum_ascii x"
          by (meson set_takeWhileD)
        have tw: "takeWhile isalnum_ascii (?tok @ rehydrate_xml v ?rest) = ?tok"
          using all stop by (simp add: takeWhile_append2)
        have dw: "dropWhile isalnum_ascii (?tok @ rehydrate_xml v ?rest) = rehydrate_xml v ?rest"
        proof -
          have "dropWhile isalnum_ascii (rehydrate_xml v ?rest) = rehydrate_xml v ?rest"
            using stop by (cases "rehydrate_xml v ?rest") (auto split: if_splits)
          then show ?thesis
            using all by (simp add: dropWhile_append2)
        qed
        have ne: "takeWhile isalnum_ascii (?tok @ rehydrate_xml v ?rest) \<noteq> []"
          unfolding tw by (rule t(2))
        have again: "rehydrate_xml v (''VAL_'' @ ?tok @ rehydrate_xml v ?rest)
                 = ?m @ rehydrate_xml v (rehydrate_xml v ?rest)"
          using rehydrate_xml_tok [OF ne, of v] unfolding tw dw None option.case .
        have first: "rehydrate_xml v s = ?m @ rehydrate_xml v ?rest"
          using r unfolding None option.case .
        have "rehydrate_xml v (rehydrate_xml v s) = ?m @ rehydrate_xml v (rehydrate_xml v ?rest)"
          unfolding first using again by (simp only: append_assoc)
        then show ?thesis
          unfolding ih first .
      qed
    next
      case False
      then have r: "rehydrate_xml v s = c # rehydrate_xml v cs"
        unfolding Cons by (rule rehydrate_xml_copy)
      have ih: "rehydrate_xml v (rehydrate_xml v cs) = rehydrate_xml v cs"
        using "1.IH" Cons by simp
      from rehydrate_xml_no_new_token [OF safe False]
      have "rehydrate_xml v (c # rehydrate_xml v cs) = c # rehydrate_xml v (rehydrate_xml v cs)"
        by (rule rehydrate_xml_copy)
      with r ih show ?thesis by (simp only:)
    qed
  qed
qed

lemma rehydrate_value_idem:
  assumes "\<forall>e \<in> snd ` set (entries v). original_value e \<notin> fst ` set (entries v)"
  shows "rehydrate_value v (rehydrate_value v s) = rehydrate_value v s"
proof (cases "restore v s")
  case None
  then show ?thesis by (simp add: rehydrate_value_def)
next
  case (Some original)
  from restore_original [OF Some] assms have "original \<notin> fst ` set (entries v)"
    by auto
  then have "map_of (entries v) original = None"
    by (simp add: map_of_eq_None_iff)
  then have "restore v original = None"
    by (simp add: restore_def)
  then have b: "rehydrate_value v original = original"
    by (simp add: rehydrate_value_def)
  have a: "rehydrate_value v s = original"
    using Some by (simp add: rehydrate_value_def)
  show ?thesis
    by (simp only: a b)
qed

lemma rehydrate_dict_idem:
  assumes "\<forall>e \<in> snd ` set (entries v). original_value e \<notin> fst ` set (entries v)"
  shows "rehydrate_dict v (rehydrate_dict v data) = rehydrate_dict v data"
  using assms
proof (induction v data rule: rehydrate_dict.induct)
  case (1 v kvs)
  then show ?case by (simp add: comp_def)
next
  case (2 v xs)
  then show ?case by simp
next
  case (3 v s)
  then show ?case by (simp add: rehydrate_value_idem)
qed simp_all

text \<open>
  C6 (as stated, refuted). The vault holds a placeholder whose original value is itself
  a placeholder of the vault (the second call of \<open>store\<close> was given the placeholder
  returned by the first): the first pass of either rehydration yields the inner
  placeholder, the second pass yields \<open>7\<close>.
\<close>

theorem rehydrate_twice_counterexample:
  "store 0 ''2024-01-01T00:00:00+00:00'' (Vault_init [''session_vault.json'']) ''7'' default_format
     = Inr (''VAL_000000000000'',
            \<lparr>path = [''session_vault.json''],
             entries = [(''VAL_000000000000'',
                \<lparr>masked_value = ''VAL_000000000000'', original_value = ''7'',
                 created_at = ''2024-01-01T00:00:00+00:00''\<rparr>)]\<rparr>)
   \<and> store (push_bit 80 1) ''2024-01-01T00:00:01+00:00''
        \<lparr>path = [''session_vault.json''],
         entries = [(''VAL_000000000000'',
            \<lparr>masked_value = ''VAL_000000000000'', original_value = ''7'',
             created_at = ''2024-01-01T00:00:00+00:00''\<rparr>)]\<rparr>
        ''VAL_000000000000'' default_format
     = Inr (''VAL_000000000001'', nested_vault)
   \<and> rehydrate_xml nested_vault ''VAL_000000000001'' = ''VAL_000000000000''
   \<and> rehydrate_xml nested_vault (rehydrate_xml nested_vault ''VAL_000000000001'') = ''7''
   \<and> rehydrate_dict nested_vault (JString ''VAL_000000000001'') = JString ''VAL_000000000000''
   \<and> rehydrate_dict nested_vault (rehydrate_dict nested_vault (JString ''VAL_000000000001''))
       = JString ''7''"
proof -
  have a: "rehydrate_xml nested_vault ''VAL_000000000001'' = ''VAL_000000000000''"
    by code_simp
  have b: "rehydrate_xml nested_vault ''VAL_000000000000'' = ''7''"
    by code_simp
  have c: "rehydrate_dict nested_vault (JString ''VAL_000000000001'') = JString ''VAL_000000000000''"
    by code_simp
  have d: "rehydrate_dict nested_vault (JString ''VAL_000000000000'') = JString ''7''"
    by code_simp
  have s1: "store 0 ''2024-01-01T00:00:00+00:00'' (Vault_init [''session_vault.json'']) ''7'' default_format
     = Inr (''VAL_000000000000'',
            \<lparr>path = [''session_vault.json''],
             entries = [(''VAL_000000000000'',
                \<lparr>masked_value = ''VAL_000000000000'', original_value = ''7'',
                 created_at = ''2024-01-01T00:00:00+00:00''\<rparr>)]\<rparr>)"
    by code_simp
  have s2: "store (push_bit 80 1) ''2024-01-01T00:00:01+00:00''
        \<lparr>path = [''session_vault.json''],
         entries = [(''VAL_000000000000'',
            \<lparr>masked_value = ''VAL_000000000000'', original_value = ''7'',
             created_at = ''2024-01-01T00:00:00+00:00''\<rparr>)]\<rparr>
        ''VAL_000000000000'' default_format
     = Inr (''VAL_000000000001'', nested_vault)"
    by code_simp
  show ?thesis
    unfolding a b c d by (intro conjI s1 s2 refl)
qed

text \<open>
  C6 (amended). \<open>rehydrate_dict\<close> applied twice equals \<open>rehydrate_dict\<close> applied once
  for every nested value when no original value of the vault is itself a key of the
  vault. \<open>rehydrate_xml\<close> applied twice equals \<open>rehydrate_xml\<close> applied once for every
  text when every original value of the vault is non-empty and contains none of the
  characters \<open>V\<close>, \<open>A\<close>, \<open>L\<close>, \<open>_\<close>, as the numeric literals do that the masking
  stage stores.
\<close>

theorem rehydrate_idempotent:
  "((\<forall>e \<in> snd ` set (entries v). original_value e \<notin> fst ` set (entries v))
      \<longrightarrow> rehydrate_dict v (rehydrate_dict v data) = rehydrate_dict v data)
   \<and> ((\<forall>e \<in> snd ` set (entries v).
          original_value e \<noteq> [] \<and> set (original_value e) \<inter> set ''VAL_'' = {})
      \<longrightarrow> rehydrate_xml v (rehydrate_xml v s) = rehydrate_xml v s)"
  using rehydrate_dict_idem rehydrate_xml_idem by blast

theorem rehydrate_idempotent_witness:
  "rehydrate_dict sample_vault
        (rehydrate_dict sample_vault (JArray [JString ''VAL_000000000000'', JInt 3]))
       = rehydrate_dict sample_vault (JArray [JString ''VAL_000000000000'', JInt 3])
   \<and> rehydrate_xml sample_vault (rehydrate_xml sample_vault ''<p>VAL_000000000000</p>'')
       = rehydrate_xml sample_vault ''<p>VAL_000000000000</p>''
   \<and> rehydrate_xml sample_vault ''<p>VAL_000000000000</p>'' = ''<p>123.45</p>''
   \<and> map original_value (map snd (entries sample_vault)) = [''123.45'', ''500.0'']
   \<and> map fst (entries sample_vault) = [''VAL_000000000000'', ''VAL_000000000001'']"
proof -
  have h1: "\<forall>e \<in> snd ` set (entries sample_vault).
              original_value e \<notin> fst ` set (entries sample_vault)"
    by (simp add: sample_vault_def sample_vault_entries_def)
  have h2: "\<forall>e \<in> snd ` set (entries sample_vault).
          original_value e \<noteq> [] \<and> set (original_value e) \<inter> set ''VAL_'' = {}"
    by (simp add: sample_vault_def sample_vault_entries_def)
  have ev: "rehydrate_xml sample_vault ''<p>VAL_000000000000</p>'' = ''<p>123.45</p>''"
    by code_simp
  have l1: "map original_value (map snd (entries sample_vault)) = [''123.45'', ''500.0'']"
    and l2: "map fst (entries sample_vault) = [''VAL_000000000000'', ''VAL_000000000001'']"
    by (simp_all add: sample_vault_def sample_vault_entries_def)
  from rehydrate_idempotent [of sample_vault "JArray [JString ''VAL_000000000000'', JInt 3]"
      "''<p>VAL_000000000000</p>''"] h1 h2
  have "rehydrate_dict sample_vault
        (rehydrate_dict sample_vault (JArray [JString ''VAL_000000000000'', JInt 3]))
       = rehydrate_dict sample_vault (JArray [JString ''VAL_000000000000'', JInt 3])"
    and "rehydrate_xml sample_vault (rehydrate_xml sample_vault ''<p>VAL_000000000000</p>'')
       = rehydrate_xml sample_vault ''<p>VAL_000000000000</p>''"
    by blast+
  with ev l1 l2 show ?thesis
    by (intro conjI)
qed

end
